theory Spec2Isabelle
  imports Main "HOL-Library.Sublist"
begin

section \<open>Configuration of the auth module\<close>

text \<open>
  The constants of \<^verbatim>\<open>lib/auth\<close>. Instants and durations are milliseconds as
  \<^verbatim>\<open>Date.now()\<close> counts them, modelled as \<open>int\<close>.
\<close>

definition SESSION_MAX_AGE_MS :: int where
  "SESSION_MAX_AGE_MS = 24 * 60 * 60 * 1000"

definition SESSION_COOKIE :: string where
  "SESSION_COOKIE = ''lsp_session''"

definition CSRF_COOKIE :: string where
  "CSRF_COOKIE = ''lsp_csrf''"

definition LOGIN_MAX_ATTEMPTS :: int where
  "LOGIN_MAX_ATTEMPTS = 5"

definition LOGIN_WINDOW_MS :: int where
  "LOGIN_WINDOW_MS = 15 * 60 * 1000"

definition LOCKOUT_ATTEMPTS :: int where
  "LOCKOUT_ATTEMPTS = 10"

definition LOCKOUT_DURATION_MS :: int where
  "LOCKOUT_DURATION_MS = 30 * 60 * 1000"

text \<open>
  What the module reads from its environment and from libraries. \<open>ALLOWED_IPS\<close> is the
  list after splitting, trimming and dropping empty items; \<open>hmac_hex v\<close> stands for
  \<^verbatim>\<open>createHmac("sha256", PANEL_SECRET).update(v).digest("hex")\<close>; \<open>bcrypt_compare\<close> for
  \<^verbatim>\<open>bcrypt.compare\<close>.
\<close>

record config =
  ALLOWED_IPS :: "string list"
  PANEL_PASSWORD_HASH :: string
  hmac_hex :: "string \<Rightarrow> string"
  bcrypt_compare :: "string \<Rightarrow> string \<Rightarrow> bool"

text \<open>
  A hex digest of SHA-256 is 64 characters, each a lower-case hexadecimal digit. The
  theorems that depend on the shape of a signature assume this of \<open>hmac_hex\<close>.
\<close>

definition hex_digest :: "(string \<Rightarrow> string) \<Rightarrow> bool" where
  "hex_digest h \<longleftrightarrow> (\<forall>v. length (h v) = 64 \<and> set (h v) \<subseteq> set ''0123456789abcdef'')"

section \<open>Process-wide state\<close>

record Session =
  sessId :: string
  csrfToken :: string
  createdAt :: int
  lastActivity :: int
  ip :: string

record RateEntry =
  attempts :: int
  firstAttempt :: int
  lockedUntil :: int

type_synonym rate_table = "string \<rightharpoonup> RateEntry"

record state =
  activeSession :: "Session option"
  rateLimitMap :: rate_table

definition init_state :: state where
  "init_state = \<lparr>activeSession = None, rateLimitMap = Map.empty\<rparr>"

text \<open>
  What a request carries: the address \<^verbatim>\<open>getClientIP()\<close> resolves, the value of the
  session cookie and the value of the CSRF header (absent is \<open>None\<close>).
\<close>

record request =
  client_ip :: string
  session_cookie :: "string option"
  csrf_header :: "string option"

section \<open>Signed values\<close>

definition signValue :: "(string \<Rightarrow> string) \<Rightarrow> string \<Rightarrow> string" where
  "signValue h v = v @ ''.'' @ h v"

fun lastIndexOf :: "char \<Rightarrow> string \<Rightarrow> nat option" where
  "lastIndexOf c [] = None"
| "lastIndexOf c (x # xs) =
     (case lastIndexOf c xs of
        Some i \<Rightarrow> Some (Suc i)
      | None \<Rightarrow> if x = c then Some 0 else None)"

definition verifySignedValue :: "(string \<Rightarrow> string) \<Rightarrow> string \<Rightarrow> string option" where
  "verifySignedValue h signed =
     (case lastIndexOf (CHR ''.'') signed of
        None \<Rightarrow> None
      | Some lastDot \<Rightarrow>
          (let v = take lastDot signed;
               expected = signValue h v
           in if expected \<noteq> signed then None else Some v))"

section \<open>Rate limiting\<close>

record rate_check =
  allowed :: bool
  remaining :: int
  retryAfterMs :: int

text \<open>
  \<open>checkRateLimit\<close> returns its answer and the table, from which it has deleted the
  entry of an elapsed window.
\<close>

definition checkRateLimit :: "rate_table \<Rightarrow> string \<Rightarrow> int \<Rightarrow> rate_check \<times> rate_table" where
  "checkRateLimit m a now =
     (case m a of
        None \<Rightarrow> (\<lparr>allowed = True, remaining = LOGIN_MAX_ATTEMPTS, retryAfterMs = 0\<rparr>, m)
      | Some entry \<Rightarrow>
          if lockedUntil entry > now then
            (\<lparr>allowed = False, remaining = 0, retryAfterMs = lockedUntil entry - now\<rparr>, m)
          else if now - firstAttempt entry > LOGIN_WINDOW_MS then
            (\<lparr>allowed = True, remaining = LOGIN_MAX_ATTEMPTS, retryAfterMs = 0\<rparr>, m(a := None))
          else
            (let r = LOGIN_MAX_ATTEMPTS - attempts entry
             in (\<lparr>allowed = r > 0, remaining = max 0 r, retryAfterMs = 0\<rparr>, m)))"

definition recordFailedAttempt :: "rate_table \<Rightarrow> string \<Rightarrow> int \<Rightarrow> rate_table" where
  "recordFailedAttempt m a now =
     (case m a of
        None \<Rightarrow> m(a \<mapsto> \<lparr>attempts = 1, firstAttempt = now, lockedUntil = 0\<rparr>)
      | Some entry \<Rightarrow>
          if now - firstAttempt entry > LOGIN_WINDOW_MS then
            m(a \<mapsto> \<lparr>attempts = 1, firstAttempt = now, lockedUntil = 0\<rparr>)
          else
            (let e1 = entry\<lparr>attempts := attempts entry + 1\<rparr>;
                 e2 = (if attempts e1 \<ge> LOCKOUT_ATTEMPTS
                       then e1\<lparr>lockedUntil := now + LOCKOUT_DURATION_MS\<rparr> else e1)
             in m(a \<mapsto> e2)))"

definition clearRateLimit :: "rate_table \<Rightarrow> string \<Rightarrow> rate_table" where
  "clearRateLimit m a = m(a := None)"

text \<open>The sweep of the five-minute timer: entries past their window and their lockout go.\<close>

definition cleanup :: "rate_table \<Rightarrow> int \<Rightarrow> rate_table" where
  "cleanup m now =
     (\<lambda>a. case m a of
            None \<Rightarrow> None
          | Some entry \<Rightarrow>
              if now - firstAttempt entry > LOGIN_WINDOW_MS \<and> now > lockedUntil entry
              then None else Some entry)"

text \<open>Failures recorded one after another for the same address, at the given instants.\<close>

fun record_failures :: "rate_table \<Rightarrow> string \<Rightarrow> int list \<Rightarrow> rate_table" where
  "record_failures m a [] = m"
| "record_failures m a (t # ts) = record_failures (recordFailedAttempt m a t) a ts"

section \<open>IP allowlist\<close>

text \<open>
  \<^verbatim>\<open>String.prototype.split\<close> with a one-character separator and \<^verbatim>\<open>Array.prototype.join\<close>.
  The split of any string has at least one piece, so \<^verbatim>\<open>[0]\<close> always finds one; the
  \<open>[]\<close> branches below are never taken.
\<close>

fun split_js :: "char \<Rightarrow> string \<Rightarrow> string list" where
  "split_js c [] = [[]]"
| "split_js c (x # xs) =
     (if x = c then [] # split_js c xs
      else (case split_js c xs of
              w # ws \<Rightarrow> (x # w) # ws
            | [] \<Rightarrow> [[x]]))"

fun join_js :: "string \<Rightarrow> string list \<Rightarrow> string" where
  "join_js sep [] = []"
| "join_js sep [w] = w"
| "join_js sep (w # ws) = w @ sep @ join_js sep ws"

definition cidr_prefix :: "string \<Rightarrow> string" where
  "cidr_prefix entry =
     (case split_js (CHR ''/'') entry of
        [] \<Rightarrow> []
      | base # _ \<Rightarrow> join_js ''.'' (take 3 (split_js (CHR ''.'') base)))"

definition checkIPAllowlist :: "config \<Rightarrow> string \<Rightarrow> bool" where
  "checkIPAllowlist cfg a =
     (if ALLOWED_IPS cfg = [] then True
      else list_ex (\<lambda>entry.
             if CHR ''/'' \<in> set entry then prefix (cidr_prefix entry) a
             else a = entry) (ALLOWED_IPS cfg))"

text \<open>
  The claim's wording of the range rule, for comparison with the code: the base address
  of a CIDR entry is what stands before its first slash, and the first three dotted
  octets of a base are its characters up to, and without, its third dot.
\<close>

definition cidr_base :: "string \<Rightarrow> string" where
  "cidr_base entry = takeWhile (\<lambda>c. c \<noteq> CHR ''/'') entry"

fun before_dot :: "nat \<Rightarrow> string \<Rightarrow> string" where
  "before_dot n [] = []"
| "before_dot n (x # xs) =
     (if x = CHR ''.'' then (case n of 0 \<Rightarrow> [] | Suc k \<Rightarrow> x # before_dot k xs)
      else x # before_dot n xs)"

definition first_three_octets :: "string \<Rightarrow> string" where
  "first_three_octets base = before_dot 2 base"

section \<open>Session validation and CSRF\<close>

record session_result =
  valid :: bool
  res_ip :: string

datatype AuthError = AuthError (message: string) (status: int)

text \<open>
  \<open>validateSession\<close> at the instant \<open>now\<close>. An empty cookie and an empty verified
  identifier are falsy in the source and fail like a missing one.
\<close>

definition validateSession :: "config \<Rightarrow> state \<Rightarrow> request \<Rightarrow> int \<Rightarrow> state \<times> session_result" where
  "validateSession cfg s req now =
     (let a = client_ip req;
          failed = \<lparr>valid = False, res_ip = a\<rparr>
      in if \<not> checkIPAllowlist cfg a then (s, failed)
         else (case session_cookie req of
                 None \<Rightarrow> (s, failed)
               | Some sessionCookie \<Rightarrow>
                   if sessionCookie = [] then (s, failed)
                   else (case verifySignedValue (hmac_hex cfg) sessionCookie of
                           None \<Rightarrow> (s, failed)
                         | Some sessionId \<Rightarrow>
                             if sessionId = [] then (s, failed)
                             else (case activeSession s of
                                     None \<Rightarrow> (s, failed)
                                   | Some act \<Rightarrow>
                                       if sessId act \<noteq> sessionId then (s, failed)
                                       else if now - createdAt act > SESSION_MAX_AGE_MS then
                                         (s\<lparr>activeSession := None\<rparr>, failed)
                                       else
                                         (s\<lparr>activeSession := Some (act\<lparr>lastActivity := now\<rparr>)\<rparr>,
                                          \<lparr>valid = True, res_ip = a\<rparr>)))))"

text \<open>
  \<open>validateCSRF\<close> in two parts, cut at \<^verbatim>\<open>await headers()\<close>. \<open>validateCSRF_begin\<close> is
  the test of the session slot before the \<^verbatim>\<open>await\<close>: \<open>Some False\<close> when the call
  returns there, \<open>None\<close> when it goes on. \<open>validateCSRF_resume\<close> is the rest, run in
  the state the call finds when it is resumed: it reads the header and then
  \<^verbatim>\<open>activeSession.csrfToken\<close>, which throws a \<^verbatim>\<open>TypeError\<close> when the slot has been
  emptied in between. \<open>validateCSRF_at s s'\<close> is a call that tests the slot in \<open>s\<close> and
  is resumed in \<open>s'\<close>; \<open>validateCSRF\<close> is a call that no other call overlaps.
\<close>

datatype thrown = TypeError | Thrown AuthError

definition validateCSRF_begin :: "state \<Rightarrow> bool option" where
  "validateCSRF_begin s =
     (case activeSession s of
        None \<Rightarrow> Some False
      | Some act \<Rightarrow> None)"

definition validateCSRF_resume :: "state \<Rightarrow> request \<Rightarrow> thrown + bool" where
  "validateCSRF_resume s req =
     (case csrf_header req of
        None \<Rightarrow> Inr False
      | Some csrfHeader \<Rightarrow>
          if csrfHeader = [] then Inr False
          else (case activeSession s of
                  None \<Rightarrow> Inl TypeError
                | Some act \<Rightarrow> Inr (csrfHeader = csrfToken act)))"

definition validateCSRF_at :: "state \<Rightarrow> state \<Rightarrow> request \<Rightarrow> thrown + bool" where
  "validateCSRF_at s s' req =
     (case validateCSRF_begin s of
        Some b \<Rightarrow> Inr b
      | None \<Rightarrow> validateCSRF_resume s' req)"

definition validateCSRF :: "state \<Rightarrow> request \<Rightarrow> thrown + bool" where
  "validateCSRF s req = validateCSRF_at s s req"

definition requireAuth :: "config \<Rightarrow> state \<Rightarrow> request \<Rightarrow> int \<Rightarrow> state \<times> (AuthError + string)" where
  "requireAuth cfg s req now =
     (case validateSession cfg s req now of
        (s', r) \<Rightarrow>
          if \<not> valid r then (s', Inl (AuthError ''Unauthorized'' 401))
          else (s', Inr (res_ip r)))"

text \<open>
  \<open>requireCSRF\<close> throws its own \<open>AuthError\<close> on \<open>False\<close>, and lets through what
  \<open>validateCSRF\<close> throws.
\<close>

definition requireCSRF_at :: "state \<Rightarrow> state \<Rightarrow> request \<Rightarrow> thrown + unit" where
  "requireCSRF_at s s' req =
     (case validateCSRF_at s s' req of
        Inl e \<Rightarrow> Inl e
      | Inr ok \<Rightarrow>
          if \<not> ok then Inl (Thrown (AuthError ''Invalid CSRF token'' 403)) else Inr ())"

definition requireCSRF :: "state \<Rightarrow> request \<Rightarrow> thrown + unit" where
  "requireCSRF s req = requireCSRF_at s s req"

definition logout :: "state \<Rightarrow> state" where
  "logout s = s\<lparr>activeSession := None\<rparr>"

section \<open>Login\<close>

record login_result =
  success :: bool
  error :: "string option"
  res_remaining :: "int option"
  res_retryAfterMs :: "int option"

text \<open>What a call does besides changing the state and returning, in the order it does it.\<close>

datatype effect =
    Audit string string "string option"
  | BcryptCompare string string
  | SetCookie string string

text \<open>
  What one call of \<open>login\<close> reads from outside: the clock, at each of its five
  \<^verbatim>\<open>Date.now()\<close> (in the first rate-limit check, in \<open>recordFailedAttempt\<close>, in the second
  check, and twice when the session is built), \<^verbatim>\<open>randomUUID()\<close> and
  \<^verbatim>\<open>randomBytes(32).toString("hex")\<close>.
\<close>

record login_io =
  now_check :: int
  now_record :: int
  now_recheck :: int
  now_created :: int
  now_activity :: int
  uuid :: string
  rand_hex :: string

text \<open>
  \<open>login\<close> in two parts, cut at \<^verbatim>\<open>await bcrypt.compare(...)\<close>. \<open>login_begin\<close> runs the
  allowlist, rate-limit and configuration checks; it answers \<open>Some\<close> result when one of
  them returns from \<open>login\<close>, and \<open>None\<close> when the call goes on to the comparison.
  \<open>login_resume\<close> is the rest of the function, from the comparison's answer on.
\<close>

definition login_begin :: "config \<Rightarrow> state \<Rightarrow> request \<Rightarrow> login_io \<Rightarrow> state \<times> login_result option \<times> effect list" where
  "login_begin cfg s req io =
     (let a = client_ip req
      in if \<not> checkIPAllowlist cfg a then
           (s,
            Some \<lparr>success = False, error = Some ''Access denied'',
                  res_remaining = None, res_retryAfterMs = None\<rparr>,
            [Audit ''blocked_ip'' a (Some ''login'')])
         else (case checkRateLimit (rateLimitMap s) a (now_check io) of
                 (rateCheck, m1) \<Rightarrow>
                   if \<not> allowed rateCheck then
                     (s\<lparr>rateLimitMap := m1\<rparr>,
                      Some \<lparr>success = False, error = Some ''Too many attempts. Try again later.'',
                            res_remaining = Some 0,
                            res_retryAfterMs = Some (retryAfterMs rateCheck)\<rparr>,
                      [Audit ''rate_limited'' a (Some ''login'')])
                   else if PANEL_PASSWORD_HASH cfg = [] then
                     (s\<lparr>rateLimitMap := m1\<rparr>,
                      Some \<lparr>success = False,
                            error = Some ''Panel not configured. Run setup.sh first.'',
                            res_remaining = None, res_retryAfterMs = None\<rparr>,
                      [])
                   else (s\<lparr>rateLimitMap := m1\<rparr>, None, [])))"

definition login_resume :: "config \<Rightarrow> state \<Rightarrow> request \<Rightarrow> login_io \<Rightarrow> bool \<Rightarrow> state \<times> login_result \<times> effect list" where
  "login_resume cfg s req io ok =
     (let a = client_ip req
      in if \<not> ok then
           (let m1 = recordFailedAttempt (rateLimitMap s) a (now_record io)
            in (case checkRateLimit m1 a (now_recheck io) of
                  (updated, m2) \<Rightarrow>
                    (s\<lparr>rateLimitMap := m2\<rparr>,
                     \<lparr>success = False, error = Some ''Invalid password'',
                      res_remaining = Some (remaining updated), res_retryAfterMs = None\<rparr>,
                     [Audit ''login_failed'' a None])))
         else
           (let m1 = clearRateLimit (rateLimitMap s) a;
                sessionId = uuid io;
                token = rand_hex io
            in (\<lparr>activeSession =
                    Some \<lparr>sessId = sessionId, csrfToken = token, createdAt = now_created io,
                          lastActivity = now_activity io, ip = a\<rparr>,
                  rateLimitMap = m1\<rparr>,
                \<lparr>success = True, error = None, res_remaining = None, res_retryAfterMs = None\<rparr>,
                [SetCookie SESSION_COOKIE (signValue (hmac_hex cfg) sessionId),
                 SetCookie CSRF_COOKIE token,
                 Audit ''login_success'' a None])))"

definition login :: "config \<Rightarrow> state \<Rightarrow> request \<Rightarrow> string \<Rightarrow> login_io \<Rightarrow> state \<times> login_result \<times> effect list" where
  "login cfg s req password io =
     (case login_begin cfg s req io of
        (s1, Some r, fx) \<Rightarrow> (s1, r, fx)
      | (s1, None, fx) \<Rightarrow>
          (case login_resume cfg s1 req io
                  (bcrypt_compare cfg password (PANEL_PASSWORD_HASH cfg)) of
             (s2, r, fx2) \<Rightarrow>
               (s2, r, fx @ [BcryptCompare password (PANEL_PASSWORD_HASH cfg)] @ fx2)))"

section \<open>Reachable states\<close>

text \<open>
  States reached when every call runs to its end before the next one starts. The timer's
  sweep is a step of its own.
\<close>

inductive reachable :: "config \<Rightarrow> state \<Rightarrow> bool" for cfg :: config where
  r_init: "reachable cfg init_state"
| r_login: "reachable cfg s \<Longrightarrow> login cfg s req password io = (s', r, fx) \<Longrightarrow> reachable cfg s'"
| r_logout: "reachable cfg s \<Longrightarrow> reachable cfg (logout s)"
| r_validate: "reachable cfg s \<Longrightarrow> validateSession cfg s req now = (s', r) \<Longrightarrow> reachable cfg s'"
| r_cleanup: "reachable cfg s \<Longrightarrow> reachable cfg (s\<lparr>rateLimitMap := cleanup (rateLimitMap s) now\<rparr>)"

text \<open>
  States reached when calls overlap. \<open>login\<close> is an async function: at
  \<^verbatim>\<open>await bcrypt.compare(...)\<close> it is suspended, and other requests run before it is
  resumed. A configuration is the state and the suspended calls of \<open>login\<close>, each with
  its request, its password and what it will read. The state accesses of
  \<open>validateSession\<close> and \<open>logout\<close> have no \<^verbatim>\<open>await\<close> between them.
  \<open>validateCSRF\<close> changes no state, so it is no step here; an overlapped call of
  it is \<open>validateCSRF_at s s'\<close>, with \<open>s\<close> and a later \<open>s'\<close> two states of one run.
\<close>

type_synonym suspended = "request \<times> string \<times> login_io"

inductive reachable_async :: "config \<Rightarrow> state \<times> suspended list \<Rightarrow> bool" for cfg :: config where
  a_init: "reachable_async cfg (init_state, [])"
| a_returned:
    "reachable_async cfg (s, ps) \<Longrightarrow> login_begin cfg s req io = (s', Some r, fx)
     \<Longrightarrow> reachable_async cfg (s', ps)"
| a_suspended:
    "reachable_async cfg (s, ps) \<Longrightarrow> login_begin cfg s req io = (s', None, fx)
     \<Longrightarrow> reachable_async cfg (s', ps @ [(req, password, io)])"
| a_resumed:
    "reachable_async cfg (s, ps @ (req, password, io) # qs)
     \<Longrightarrow> login_resume cfg s req io (bcrypt_compare cfg password (PANEL_PASSWORD_HASH cfg)) = (s', r, fx)
     \<Longrightarrow> reachable_async cfg (s', ps @ qs)"
| a_logout: "reachable_async cfg (s, ps) \<Longrightarrow> reachable_async cfg (logout s, ps)"
| a_validate:
    "reachable_async cfg (s, ps) \<Longrightarrow> validateSession cfg s req now = (s', r)
     \<Longrightarrow> reachable_async cfg (s', ps)"
| a_cleanup:
    "reachable_async cfg (s, ps)
     \<Longrightarrow> reachable_async cfg (s\<lparr>rateLimitMap := cleanup (rateLimitMap s) now\<rparr>, ps)"

text \<open>The invariant of the rate-limit table that the claims speak of.\<close>

definition soft_capped :: "rate_table \<Rightarrow> bool" where
  "soft_capped m \<longleftrightarrow> (\<forall>a e. m a = Some e \<longrightarrow> attempts e \<le> 5 \<and> lockedUntil e = 0)"

section \<open>Concrete configurations and inputs\<close>

text \<open>
  Small stand-ins for the two library functions, used where a theorem is run on a
  concrete input: a digest of 64 hexadecimal digits, and a password check against a
  hash that is the password behind a dollar sign.
\<close>

definition demo_hmac :: "string \<Rightarrow> string" where
  "demo_hmac v = replicate 64 (if even (length v) then CHR ''0'' else CHR ''1'')"

definition demo_compare :: "string \<Rightarrow> string \<Rightarrow> bool" where
  "demo_compare password hash \<longleftrightarrow> hash = ''$'' @ password"

definition demo_cfg :: config where
  "demo_cfg = \<lparr>ALLOWED_IPS = [], PANEL_PASSWORD_HASH = ''$pw'',
               hmac_hex = demo_hmac, bcrypt_compare = demo_compare\<rparr>"

text \<open>
  Ten requests with a wrong password from one address. Call \<open>i\<close> passes its rate-limit
  check at 1000 + i ms and gets the comparison's answer at 1300 + i ms.
\<close>

definition race_req :: request where
  "race_req = \<lparr>client_ip = ''203.0.113.9'', session_cookie = None, csrf_header = None\<rparr>"

definition race_io :: "nat \<Rightarrow> login_io" where
  "race_io i = \<lparr>now_check = 1000 + int i, now_record = 1300 + int i, now_recheck = 1300 + int i,
               now_created = 1300 + int i, now_activity = 1300 + int i,
               uuid = ''u'', rand_hex = ''c''\<rparr>"

definition race_call :: "nat \<Rightarrow> suspended" where
  "race_call i = (race_req, ''guess'', race_io i)"

definition race_state :: "nat \<Rightarrow> state" where
  "race_state k =
     \<lparr>activeSession = None,
      rateLimitMap = [''203.0.113.9'' \<mapsto>
        \<lparr>attempts = int k, firstAttempt = 1300,
         lockedUntil = (if 10 \<le> k then 1801309 else 0)\<rparr>]\<rparr>"

text \<open>The same requests one after the other, call \<open>i\<close> wholly at second \<open>i + 1\<close>.\<close>

definition seq_io :: "nat \<Rightarrow> login_io" where
  "seq_io i = \<lparr>now_check = 1000 * (int i + 1), now_record = 1000 * (int i + 1),
              now_recheck = 1000 * (int i + 1), now_created = 1000 * (int i + 1),
              now_activity = 1000 * (int i + 1), uuid = ''u'', rand_hex = ''c''\<rparr>"

definition seq_state :: "nat \<Rightarrow> state" where
  "seq_state k =
     \<lparr>activeSession = None,
      rateLimitMap = [''203.0.113.9'' \<mapsto>
        \<lparr>attempts = int k, firstAttempt = 1000, lockedUntil = 0\<rparr>]\<rparr>"

text \<open>Two entries of the rate-limit table: one counting, one locked.\<close>

definition demo_entry :: RateEntry where
  "demo_entry = \<lparr>attempts = 3, firstAttempt = 1000, lockedUntil = 0\<rparr>"

definition locked_entry :: RateEntry where
  "locked_entry = \<lparr>attempts = 10, firstAttempt = 1300, lockedUntil = 1801309\<rparr>"

text \<open>
  A session issued at 1000 ms to 10.0.0.5, the state that holds it, and the
  configuration that admits that address only.
\<close>

definition live_session :: Session where
  "live_session = \<lparr>sessId = ''s1'', csrfToken = ''c1'', createdAt = 1000,
                    lastActivity = 1000, ip = ''10.0.0.5''\<rparr>"

definition live_state :: state where
  "live_state = \<lparr>activeSession = Some live_session, rateLimitMap = Map.empty\<rparr>"

definition guarded_cfg :: config where
  "guarded_cfg = demo_cfg\<lparr>ALLOWED_IPS := [''10.0.0.5'']\<rparr>"

definition first_io :: login_io where
  "first_io = \<lparr>now_check = 1000, now_record = 1000, now_recheck = 1000, now_created = 1000,
               now_activity = 1000, uuid = ''s1'', rand_hex = ''c1''\<rparr>"

definition live_cookie :: string where
  "live_cookie = signValue demo_hmac ''s1''"

text \<open>A request without cookie or header, and a signature with its last digit changed.\<close>

definition bare_req :: request where
  "bare_req = \<lparr>client_ip = ''10.0.0.5'', session_cookie = None, csrf_header = None\<rparr>"

definition tampered_sig :: string where
  "tampered_sig = replicate 63 (CHR ''0'') @ ''f''"

text \<open>A second login, with the right password, at 5000 ms from another address.\<close>

definition relogin_req :: request where
  "relogin_req = \<lparr>client_ip = ''10.0.0.9'', session_cookie = None, csrf_header = None\<rparr>"

definition relogin_io :: login_io where
  "relogin_io = \<lparr>now_check = 5000, now_record = 5000, now_recheck = 5000, now_created = 5000,
                 now_activity = 5000, uuid = ''s2'', rand_hex = ''c2''\<rparr>"

definition relogin_state :: state where
  "relogin_state =
     \<lparr>activeSession = Some \<lparr>sessId = ''s2'', csrfToken = ''c2'', createdAt = 5000,
                             lastActivity = 5000, ip = ''10.0.0.9''\<rparr>,
      rateLimitMap = Map.empty\<rparr>"

text \<open>An allowlist with a literal address and two ranges, and an unconfigured panel.\<close>

definition ranges_cfg :: config where
  "ranges_cfg = demo_cfg\<lparr>ALLOWED_IPS := [''10.0.0.5'', ''192.168.1.0/24'', ''172.16.0.0/12'']\<rparr>"

definition unconfigured_cfg :: config where
  "unconfigured_cfg = demo_cfg\<lparr>PANEL_PASSWORD_HASH := []\<rparr>"

definition locked_state :: state where
  "locked_state = \<lparr>activeSession = None, rateLimitMap = [''203.0.113.9'' \<mapsto> locked_entry]\<rparr>"

section \<open>The rate-limit table under sequential and under overlapping logins\<close>

subsection \<open>Calls that run one after the other\<close>

lemma checkRateLimit_keeps_cap:
  assumes "soft_capped m" "checkRateLimit m a now = (rc, m1)"
  shows "soft_capped m1"
  using assms
  by (auto simp: soft_capped_def checkRateLimit_def Let_def split: option.splits if_splits)

lemma checkRateLimit_allowed_budget:
  assumes "checkRateLimit m a now = (rc, m1)" "allowed rc" "m1 a = Some e"
  shows "attempts e < 5"
  using assms
  by (auto simp: checkRateLimit_def Let_def LOGIN_MAX_ATTEMPTS_def split: option.splits if_splits)

lemma recordFailedAttempt_keeps_cap:
  assumes "soft_capped m" "\<And>e. m a = Some e \<Longrightarrow> attempts e < 5"
  shows "soft_capped (recordFailedAttempt m a now)"
  using assms
  by (auto simp: soft_capped_def recordFailedAttempt_def Let_def LOCKOUT_ATTEMPTS_def
      split: option.splits if_splits)

lemma clearRateLimit_keeps_cap: "soft_capped m \<Longrightarrow> soft_capped (clearRateLimit m a)"
  by (simp add: soft_capped_def clearRateLimit_def)

lemma cleanup_keeps_cap: "soft_capped m \<Longrightarrow> soft_capped (cleanup m now)"
  by (auto simp: soft_capped_def cleanup_def split: option.splits if_splits)

lemma login_begin_keeps_cap:
  assumes "soft_capped (rateLimitMap s)" "login_begin cfg s req io = (s', res, fx)"
  shows "soft_capped (rateLimitMap s')"
  using assms checkRateLimit_keeps_cap
  by (fastforce simp: login_begin_def Let_def split: if_splits prod.splits)

lemma login_begin_budget:
  assumes "login_begin cfg s req io = (s', None, fx)" "rateLimitMap s' (client_ip req) = Some e"
  shows "attempts e < 5"
  using assms checkRateLimit_allowed_budget
  by (fastforce simp: login_begin_def Let_def split: if_splits prod.splits)

lemma login_resume_keeps_cap:
  assumes "soft_capped (rateLimitMap s)"
    and "\<And>e. rateLimitMap s (client_ip req) = Some e \<Longrightarrow> attempts e < 5"
    and "login_resume cfg s req io ok = (s', r, fx)"
  shows "soft_capped (rateLimitMap s')"
proof (cases ok)
  case True
  with assms(3) have "rateLimitMap s' = clearRateLimit (rateLimitMap s) (client_ip req)"
    by (auto simp: login_resume_def Let_def)
  with assms(1) show ?thesis by (simp add: clearRateLimit_keeps_cap)
next
  case False
  let ?m1 = "recordFailedAttempt (rateLimitMap s) (client_ip req) (now_record io)"
  have c1: "soft_capped ?m1"
    using assms(1,2) by (rule recordFailedAttempt_keeps_cap)
  obtain rc m2 where chk: "checkRateLimit ?m1 (client_ip req) (now_recheck io) = (rc, m2)"
    by (cases "checkRateLimit ?m1 (client_ip req) (now_recheck io)")
  with False assms(3) have "rateLimitMap s' = m2"
    by (auto simp: login_resume_def Let_def)
  with c1 chk show ?thesis using checkRateLimit_keeps_cap by blast
qed

lemma login_keeps_cap:
  assumes "soft_capped (rateLimitMap s)" "login cfg s req password io = (s', r, fx)"
  shows "soft_capped (rateLimitMap s')"
proof -
  obtain s1 res fx1 where b: "login_begin cfg s req io = (s1, res, fx1)"
    by (cases "login_begin cfg s req io")
  have c1: "soft_capped (rateLimitMap s1)"
    using assms(1) b by (rule login_begin_keeps_cap)
  show ?thesis
  proof (cases res)
    case (Some r1)
    with assms(2) b have "s' = s1" by (simp add: login_def)
    with c1 show ?thesis by simp
  next
    case None
    obtain s2 r2 fx2 where
      r: "login_resume cfg s1 req io (bcrypt_compare cfg password (PANEL_PASSWORD_HASH cfg)) = (s2, r2, fx2)"
      by (cases "login_resume cfg s1 req io (bcrypt_compare cfg password (PANEL_PASSWORD_HASH cfg))")
    with None assms(2) b have "s' = s2" by (simp add: login_def)
    moreover have "soft_capped (rateLimitMap s2)"
      using c1 login_begin_budget[OF b[unfolded None]] r by (rule login_resume_keeps_cap)
    ultimately show ?thesis by simp
  qed
qed

lemma validateSession_rate_table:
  "validateSession cfg s req now = (s', r) \<Longrightarrow> rateLimitMap s' = rateLimitMap s"
  by (auto simp: validateSession_def Let_def split: if_splits option.splits)

lemma reachable_soft_capped: "reachable cfg s \<Longrightarrow> soft_capped (rateLimitMap s)"
proof (induction rule: reachable.induct)
  case r_init
  show ?case by (simp add: init_state_def soft_capped_def)
next
  case (r_login s req password io s' r fx)
  then show ?case using login_keeps_cap by blast
next
  case (r_logout s)
  then show ?case by (simp add: logout_def)
next
  case (r_validate s req now s' r)
  then show ?case using validateSession_rate_table by metis
next
  case (r_cleanup s now)
  then show ?case by (simp add: cleanup_keeps_cap)
qed

lemma seq_login_first:
  "\<exists>r fx. login demo_cfg init_state race_req ''guess'' (seq_io 0) = (seq_state 1, r, fx)"
  by (simp add: login_def login_begin_def login_resume_def demo_cfg_def demo_compare_def
      init_state_def race_req_def seq_io_def seq_state_def checkIPAllowlist_def
      checkRateLimit_def recordFailedAttempt_def Let_def LOGIN_WINDOW_MS_def
      LOGIN_MAX_ATTEMPTS_def)

lemma seq_login_next:
  assumes "1 \<le> k" "k < 5"
  shows "\<exists>r fx. login demo_cfg (seq_state k) race_req ''guess'' (seq_io k) = (seq_state (Suc k), r, fx)"
  using assms
  by (auto simp: login_def login_begin_def login_resume_def demo_cfg_def demo_compare_def
      race_req_def seq_io_def seq_state_def checkIPAllowlist_def
      checkRateLimit_def recordFailedAttempt_def Let_def LOGIN_WINDOW_MS_def
      LOGIN_MAX_ATTEMPTS_def LOCKOUT_ATTEMPTS_def)

lemma seq_reachable: "1 \<le> k \<Longrightarrow> k \<le> 5 \<Longrightarrow> reachable demo_cfg (seq_state k)"
proof (induction k)
  case 0
  then show ?case by simp
next
  case (Suc k)
  show ?case
  proof (cases "k = 0")
    case True
    with seq_login_first r_login[OF r_init] show ?thesis by auto
  next
    case False
    with Suc have k: "1 \<le> k" "k < 5" by simp_all
    with Suc have "reachable demo_cfg (seq_state k)" by simp
    with seq_login_next[OF k] r_login show ?thesis by blast
  qed
qed

text \<open>
  C1 (as amended). Starting from the empty rate-limit table, in every state reached by
  calls of \<open>login\<close>, \<open>logout\<close> and \<open>validateSession\<close> (and sweeps of the timer) that do
  not overlap, every rate-limit entry has \<open>attempts \<le> 5\<close> and \<open>lockedUntil = 0\<close>: within
  one call \<open>recordFailedAttempt\<close> runs only after \<open>checkRateLimit\<close> allowed the address,
  so the lockout branch is never taken. The instants the calls read are arbitrary.
\<close>

theorem sequential_logins_never_lock:
  "reachable cfg s \<Longrightarrow> rateLimitMap s a = Some e \<Longrightarrow> attempts e \<le> 5 \<and> lockedUntil e = 0"
  using reachable_soft_capped[of cfg s] by (simp add: soft_capped_def)

text \<open>Five failed logins in a row, one per second, reach the cap and no lockout.\<close>

theorem sequential_logins_never_lock_witness:
  "reachable demo_cfg (seq_state 5)
   \<and> rateLimitMap (seq_state 5) ''203.0.113.9'' =
       Some \<lparr>attempts = 5, firstAttempt = 1000, lockedUntil = 0\<rparr>
   \<and> attempts \<lparr>attempts = 5, firstAttempt = 1000, lockedUntil = 0\<rparr> \<le> 5
   \<and> lockedUntil \<lparr>attempts = 5, firstAttempt = 1000, lockedUntil = 0\<rparr> = 0"
proof -
  have r: "reachable demo_cfg (seq_state 5)"
    by (rule seq_reachable) simp_all
  have l: "rateLimitMap (seq_state 5) ''203.0.113.9'' =
       Some \<lparr>attempts = 5, firstAttempt = 1000, lockedUntil = 0\<rparr>"
    by (simp add: seq_state_def)
  from sequential_logins_never_lock[OF r l] r l show ?thesis by simp
qed

subsection \<open>Calls that overlap\<close>

text \<open>
  Every run of calls that do not overlap is a run of the interleaved system, in which
  each \<open>login\<close> is resumed as soon as it is suspended.
\<close>

lemma reachable_is_async: "reachable cfg s \<Longrightarrow> reachable_async cfg (s, [])"
proof (induction rule: reachable.induct)
  case r_init
  show ?case by (rule a_init)
next
  case (r_login s req password io s' r fx)
  obtain s1 res fx1 where b: "login_begin cfg s req io = (s1, res, fx1)"
    by (cases "login_begin cfg s req io")
  show ?case
  proof (cases res)
    case (Some r1)
    with r_login.hyps(2) b have "s' = s1" by (simp add: login_def)
    with a_returned[OF r_login.IH b[unfolded Some]] show ?thesis by simp
  next
    case None
    obtain s2 r2 fx2 where
      r: "login_resume cfg s1 req io (bcrypt_compare cfg password (PANEL_PASSWORD_HASH cfg)) = (s2, r2, fx2)"
      by (cases "login_resume cfg s1 req io (bcrypt_compare cfg password (PANEL_PASSWORD_HASH cfg))")
    with None r_login.hyps(2) b have s': "s' = s2" by (simp add: login_def)
    have "reachable_async cfg (s1, [] @ (req, password, io) # [])"
      using a_suspended[OF r_login.IH b[unfolded None], of password] by simp
    from a_resumed[OF this r] s' show ?thesis by simp
  qed
next
  case (r_logout s)
  then show ?case using a_logout by blast
next
  case (r_validate s req now s' r)
  then show ?case using a_validate by blast
next
  case (r_cleanup s now)
  then show ?case using a_cleanup by blast
qed

lemma race_begin:
  "login_begin demo_cfg init_state race_req (race_io n) = (init_state, None, [])"
  by (simp add: login_begin_def demo_cfg_def init_state_def race_req_def checkIPAllowlist_def
      checkRateLimit_def)

lemma race_all_suspended: "reachable_async demo_cfg (init_state, map race_call [0..<n])"
proof (induction n)
  case 0
  show ?case by (simp add: a_init)
next
  case (Suc n)
  from a_suspended[OF Suc race_begin, of "''guess''"] show ?case
    by (simp add: race_call_def)
qed

lemma race_compare: "bcrypt_compare demo_cfg ''guess'' (PANEL_PASSWORD_HASH demo_cfg) = False"
  by (simp add: demo_cfg_def demo_compare_def)

lemma race_resume_first:
  "login_resume demo_cfg init_state race_req (race_io 0) False =
     (race_state 1,
      \<lparr>success = False, error = Some ''Invalid password'', res_remaining = Some 4,
       res_retryAfterMs = None\<rparr>,
      [Audit ''login_failed'' ''203.0.113.9'' None])"
  by (simp add: login_resume_def race_req_def race_io_def init_state_def race_state_def
      recordFailedAttempt_def checkRateLimit_def Let_def LOGIN_WINDOW_MS_def
      LOGIN_MAX_ATTEMPTS_def)

lemma race_resume_next:
  assumes "1 \<le> k" "k < 10"
  shows "\<exists>r fx. login_resume demo_cfg (race_state k) race_req (race_io k) False =
     (race_state (Suc k), r, fx)"
  using assms
  by (auto simp: login_resume_def race_req_def race_io_def race_state_def
      recordFailedAttempt_def checkRateLimit_def Let_def LOGIN_WINDOW_MS_def
      LOGIN_MAX_ATTEMPTS_def LOCKOUT_ATTEMPTS_def LOCKOUT_DURATION_MS_def)

lemma race_resumed:
  "1 \<le> k \<Longrightarrow> k \<le> 10 \<Longrightarrow> reachable_async demo_cfg (race_state k, map race_call [k..<10])"
proof (induction k)
  case 0
  then show ?case by simp
next
  case (Suc k)
  show ?case
  proof (cases "k = 0")
    case True
    have "reachable_async demo_cfg (init_state, [] @ (race_req, ''guess'', race_io 0) # map race_call [1..<10])"
      using race_all_suspended[of 10] by (simp add: upt_conv_Cons race_call_def)
    from a_resumed[OF this] race_resume_first True show ?thesis
      by (simp add: race_compare)
  next
    case False
    with Suc have k: "1 \<le> k" "k < 10" by simp_all
    with Suc have "reachable_async demo_cfg (race_state k, map race_call [k..<10])" by simp
    with k have "reachable_async demo_cfg
        (race_state k, [] @ (race_req, ''guess'', race_io k) # map race_call [Suc k..<10])"
      by (simp add: upt_conv_Cons race_call_def)
    from a_resumed[OF this] race_resume_next[OF k] show ?thesis
      by (auto simp: race_compare)
  qed
qed

text \<open>
  C1 as stated fails when calls of \<open>login\<close> overlap. Ten requests from one address
  all pass \<open>checkRateLimit\<close> before any of them is resumed from
  \<^verbatim>\<open>await bcrypt.compare(...)\<close>; each then records its failure, the tenth reaches
  \<open>LOCKOUT_ATTEMPTS\<close> and sets \<open>lockedUntil\<close>.
\<close>

theorem overlapping_logins_reach_lockout:
  "reachable_async demo_cfg (race_state 10, [])
   \<and> rateLimitMap (race_state 10) ''203.0.113.9'' =
       Some \<lparr>attempts = 10, firstAttempt = 1300, lockedUntil = 1801309\<rparr>
   \<and> \<not> attempts \<lparr>attempts = 10, firstAttempt = 1300, lockedUntil = 1801309\<rparr> \<le> 5
   \<and> lockedUntil \<lparr>attempts = 10, firstAttempt = 1300, lockedUntil = 1801309\<rparr> \<noteq> 0"
  using race_resumed[of 10] by (simp add: race_state_def)

section \<open>What the rate limiter answers\<close>

lemma recordFailedAttempt_fresh:
  "m a = None \<Longrightarrow>
   recordFailedAttempt m a t a = Some \<lparr>attempts = 1, firstAttempt = t, lockedUntil = 0\<rparr>"
  by (simp add: recordFailedAttempt_def)

lemma recordFailedAttempt_in_window:
  assumes "m a = Some e" "t - firstAttempt e \<le> LOGIN_WINDOW_MS" "attempts e + 1 < LOCKOUT_ATTEMPTS"
  shows "recordFailedAttempt m a t a = Some (e\<lparr>attempts := attempts e + 1\<rparr>)"
  using assms by (simp add: recordFailedAttempt_def Let_def)

lemma record_failures_in_window:
  assumes "m a = Some e"
    and "\<forall>t\<in>set ts. t - firstAttempt e \<le> LOGIN_WINDOW_MS"
    and "attempts e + int (length ts) < LOCKOUT_ATTEMPTS"
  shows "record_failures m a ts a = Some (e\<lparr>attempts := attempts e + int (length ts)\<rparr>)"
  using assms
proof (induction ts arbitrary: m e)
  case Nil
  then show ?case by simp
next
  case (Cons t ts)
  let ?e = "e\<lparr>attempts := attempts e + 1\<rparr>"
  have step: "recordFailedAttempt m a t a = Some ?e"
    using Cons.prems by (intro recordFailedAttempt_in_window) auto
  have "record_failures (recordFailedAttempt m a t) a ts a =
      Some (?e\<lparr>attempts := attempts ?e + int (length ts)\<rparr>)"
    using Cons.prems step Cons.IH[of "recordFailedAttempt m a t" ?e] by auto
  then show ?case by (simp add: add.assoc)
qed

lemma record_failures_from_none:
  assumes "m a = None"
    and "\<forall>t\<in>set ts. t - t1 \<le> LOGIN_WINDOW_MS"
    and "int (length ts) < 9"
  shows "record_failures m a (t1 # ts) a =
     Some \<lparr>attempts = 1 + int (length ts), firstAttempt = t1, lockedUntil = 0\<rparr>"
proof -
  let ?e = "\<lparr>attempts = 1, firstAttempt = t1, lockedUntil = 0\<rparr>"
  have "record_failures (recordFailedAttempt m a t1) a ts a =
      Some (?e\<lparr>attempts := attempts ?e + int (length ts)\<rparr>)"
    using assms recordFailedAttempt_fresh[of m a t1]
      record_failures_in_window[of "recordFailedAttempt m a t1" a ?e ts]
    by (auto simp: LOCKOUT_ATTEMPTS_def)
  then show ?thesis by simp
qed

lemma checkRateLimit_counting:
  assumes "m a = Some e" "\<not> now < lockedUntil e" "\<not> LOGIN_WINDOW_MS < now - firstAttempt e"
  shows "checkRateLimit m a now =
     (\<lparr>allowed = (0 < 5 - attempts e), remaining = max 0 (5 - attempts e), retryAfterMs = 0\<rparr>, m)"
  using assms by (simp add: checkRateLimit_def Let_def LOGIN_MAX_ATTEMPTS_def)

text \<open>
  C2. For every address: with no entry in the table, \<open>checkRateLimit\<close> answers allowed,
  with the full budget of 5 and no retry delay; with an entry that is not locked and
  whose window has not elapsed, it answers \<open>remaining = 5 - attempts\<close> clamped at 0, and
  allowed iff that difference is positive. In particular, after four failures recorded
  for an address without entry, all within the window of the first, the check (at an
  instant \<open>now4\<close> of that window) answers allowed with 1 remaining, and after a fifth
  (checked at \<open>now5\<close>) not allowed with 0 remaining.
\<close>

theorem checkRateLimit_budget:
  "(m a = None \<longrightarrow>
      fst (checkRateLimit m a now) = \<lparr>allowed = True, remaining = 5, retryAfterMs = 0\<rparr>)
   \<and> (m a = Some e \<and> \<not> now < lockedUntil e \<and> \<not> LOGIN_WINDOW_MS < now - firstAttempt e \<longrightarrow>
      fst (checkRateLimit m a now) =
        \<lparr>allowed = (0 < 5 - attempts e), remaining = max 0 (5 - attempts e), retryAfterMs = 0\<rparr>)
   \<and> (m a = None \<and> length ts = 4 \<and> 0 \<le> now4 \<and> 0 \<le> now5
        \<and> (\<forall>t\<in>set (ts @ [t5, now4, now5]). t - hd ts \<le> LOGIN_WINDOW_MS) \<longrightarrow>
      fst (checkRateLimit (record_failures m a ts) a now4) =
        \<lparr>allowed = True, remaining = 1, retryAfterMs = 0\<rparr>
      \<and> fst (checkRateLimit (record_failures m a (ts @ [t5])) a now5) =
        \<lparr>allowed = False, remaining = 0, retryAfterMs = 0\<rparr>)"
proof (intro conjI impI)
  assume "m a = None"
  then show "fst (checkRateLimit m a now) = \<lparr>allowed = True, remaining = 5, retryAfterMs = 0\<rparr>"
    by (simp add: checkRateLimit_def LOGIN_MAX_ATTEMPTS_def)
next
  assume "m a = Some e \<and> \<not> now < lockedUntil e \<and> \<not> LOGIN_WINDOW_MS < now - firstAttempt e"
  then show "fst (checkRateLimit m a now) =
        \<lparr>allowed = (0 < 5 - attempts e), remaining = max 0 (5 - attempts e), retryAfterMs = 0\<rparr>"
    by (simp add: checkRateLimit_counting)
next
  assume h: "m a = None \<and> length ts = 4 \<and> 0 \<le> now4 \<and> 0 \<le> now5
        \<and> (\<forall>t\<in>set (ts @ [t5, now4, now5]). t - hd ts \<le> LOGIN_WINDOW_MS)"
  then obtain t1 rest where ts: "ts = t1 # rest" and len: "length rest = 3"
    by (cases ts) auto
  from h ts have win: "\<forall>t\<in>set (rest @ [t5, now4, now5]). t - t1 \<le> LOGIN_WINDOW_MS"
    by auto
  have four: "record_failures m a ts a =
      Some \<lparr>attempts = 4, firstAttempt = t1, lockedUntil = 0\<rparr>"
    using record_failures_from_none[of m a rest t1] h win len ts by simp
  have five: "record_failures m a (ts @ [t5]) a =
      Some \<lparr>attempts = 5, firstAttempt = t1, lockedUntil = 0\<rparr>"
    using record_failures_from_none[of m a "rest @ [t5]" t1] h win len ts by simp
  from h win show "fst (checkRateLimit (record_failures m a ts) a now4) =
        \<lparr>allowed = True, remaining = 1, retryAfterMs = 0\<rparr>"
    using checkRateLimit_counting[of "record_failures m a ts" a _ now4] four by simp
  from h win show "fst (checkRateLimit (record_failures m a (ts @ [t5])) a now5) =
        \<lparr>allowed = False, remaining = 0, retryAfterMs = 0\<rparr>"
    using checkRateLimit_counting[of "record_failures m a (ts @ [t5])" a _ now5] five by simp
qed

text \<open>
  The three cases on concrete tables: no entry; an entry with three failures; four and
  five failures one second apart.
\<close>

theorem checkRateLimit_budget_witness:
  "fst (checkRateLimit Map.empty ''198.51.100.7'' 5000) =
      \<lparr>allowed = True, remaining = 5, retryAfterMs = 0\<rparr>
   \<and> fst (checkRateLimit [''198.51.100.7'' \<mapsto> demo_entry] ''198.51.100.7'' 5000) =
      \<lparr>allowed = True, remaining = 2, retryAfterMs = 0\<rparr>
   \<and> fst (checkRateLimit (record_failures Map.empty ''198.51.100.7'' [1000, 2000, 3000, 4000])
          ''198.51.100.7'' 4500) =
      \<lparr>allowed = True, remaining = 1, retryAfterMs = 0\<rparr>
   \<and> fst (checkRateLimit (record_failures Map.empty ''198.51.100.7'' ([1000, 2000, 3000, 4000] @ [5000]))
          ''198.51.100.7'' 6000) =
      \<lparr>allowed = False, remaining = 0, retryAfterMs = 0\<rparr>"
proof -
  have a: "fst (checkRateLimit Map.empty ''198.51.100.7'' 5000) =
      \<lparr>allowed = True, remaining = 5, retryAfterMs = 0\<rparr>"
    using checkRateLimit_budget[of Map.empty "''198.51.100.7''" 5000] by simp
  have b: "fst (checkRateLimit [''198.51.100.7'' \<mapsto> demo_entry] ''198.51.100.7'' 5000) =
      \<lparr>allowed = True, remaining = 2, retryAfterMs = 0\<rparr>"
    using checkRateLimit_budget[of "[''198.51.100.7'' \<mapsto> demo_entry]" "''198.51.100.7''" 5000 demo_entry]
    by (simp add: demo_entry_def LOGIN_WINDOW_MS_def)
  have c: "fst (checkRateLimit (record_failures Map.empty ''198.51.100.7'' [1000, 2000, 3000, 4000])
          ''198.51.100.7'' 4500) =
      \<lparr>allowed = True, remaining = 1, retryAfterMs = 0\<rparr>
   \<and> fst (checkRateLimit (record_failures Map.empty ''198.51.100.7'' ([1000, 2000, 3000, 4000] @ [5000]))
          ''198.51.100.7'' 6000) =
      \<lparr>allowed = False, remaining = 0, retryAfterMs = 0\<rparr>"
    using checkRateLimit_budget[of Map.empty "''198.51.100.7''" 0 demo_entry
        "[1000, 2000, 3000, 4000]" 4500 6000 5000]
    by (simp add: LOGIN_WINDOW_MS_def)
  from a b c show ?thesis by simp
qed

text \<open>
  C3. For every address whose entry is locked (\<open>now < lockedUntil\<close>), \<open>checkRateLimit\<close>
  answers not allowed, 0 remaining and \<open>retryAfterMs = lockedUntil - now\<close>, and leaves
  the table as it is, whether or not the window counted from \<open>firstAttempt\<close> has
  elapsed: the lockout is tested before the window.
\<close>

theorem lockout_before_window:
  "m a = Some e \<Longrightarrow> now < lockedUntil e \<Longrightarrow>
   checkRateLimit m a now =
     (\<lparr>allowed = False, remaining = 0, retryAfterMs = lockedUntil e - now\<rparr>, m)"
  by (simp add: checkRateLimit_def)

text \<open>An entry locked until 1801309 ms, asked at 1000000 ms, long after its window.\<close>

theorem lockout_before_window_witness:
  "LOGIN_WINDOW_MS < 1000000 - firstAttempt locked_entry
   \<and> checkRateLimit [''203.0.113.9'' \<mapsto> locked_entry] ''203.0.113.9'' 1000000 =
     (\<lparr>allowed = False, remaining = 0, retryAfterMs = 801309\<rparr>, [''203.0.113.9'' \<mapsto> locked_entry])"
  using lockout_before_window[of "[''203.0.113.9'' \<mapsto> locked_entry]" "''203.0.113.9''" locked_entry 1000000]
  by (simp add: locked_entry_def LOGIN_WINDOW_MS_def)

section \<open>Signing and verifying\<close>

lemma lastIndexOf_None: "lastIndexOf c xs = None \<longleftrightarrow> c \<notin> set xs"
  by (induction xs) (auto split: option.splits)

lemma lastIndexOf_last:
  "c \<notin> set ys \<Longrightarrow> lastIndexOf c (xs @ c # ys) = Some (length xs)"
proof (induction xs)
  case Nil
  then have "lastIndexOf c ys = None" by (simp add: lastIndexOf_None)
  then show ?case by simp
next
  case (Cons x xs)
  then show ?case by simp
qed

lemma hex_digest_no_dot: "hex_digest h \<Longrightarrow> CHR ''.'' \<notin> set (h v)"
proof
  assume h: "hex_digest h" and d: "CHR ''.'' \<in> set (h v)"
  from h have "set (h v) \<subseteq> set ''0123456789abcdef''" by (simp add: hex_digest_def)
  with d have "CHR ''.'' \<in> set ''0123456789abcdef''" by blast
  then show False by simp
qed

lemma verify_sign:
  assumes "CHR ''.'' \<notin> set (h v)"
  shows "verifySignedValue h (signValue h v) = Some v"
proof -
  have "lastIndexOf (CHR ''.'') (v @ CHR ''.'' # h v) = Some (length v)"
    using assms by (rule lastIndexOf_last)
  then show ?thesis by (simp add: verifySignedValue_def signValue_def)
qed

lemma verify_Some_signed: "verifySignedValue h c = Some v \<Longrightarrow> c = signValue h v"
  by (auto simp: verifySignedValue_def Let_def split: option.splits if_splits)

lemma verify_tampered:
  assumes len: "\<forall>w. length (h w) = n" and sg: "length sg = n" "sg \<noteq> h v"
  shows "verifySignedValue h (v @ ''.'' @ sg) = None"
proof (rule ccontr)
  assume "verifySignedValue h (v @ ''.'' @ sg) \<noteq> None"
  then obtain w where "verifySignedValue h (v @ ''.'' @ sg) = Some w" by auto
  then have eq: "v @ ''.'' @ sg = w @ ''.'' @ h w"
    using verify_Some_signed[of h "v @ ''.'' @ sg" w] by (simp add: signValue_def)
  have "length (h w) = length sg" using len sg by simp
  with eq have "length v = length w"
    by (metis add_right_cancel length_append)
  with eq have "v = w \<and> sg = h w" by simp
  with sg show False by simp
qed

lemma demo_hmac_hex: "hex_digest demo_hmac"
  by (simp add: hex_digest_def demo_hmac_def)

section \<open>Lifetime of a session\<close>

lemma live_cookie_verifies: "verifySignedValue demo_hmac live_cookie = Some ''s1''"
  unfolding live_cookie_def by (rule verify_sign) (rule hex_digest_no_dot[OF demo_hmac_hex])

lemma validateSession_matching:
  assumes "checkIPAllowlist cfg (client_ip req)"
    and "activeSession s = Some act" and "sessId act \<noteq> []"
    and "session_cookie req = Some c"
    and "verifySignedValue (hmac_hex cfg) c = Some (sessId act)"
  shows "validateSession cfg s req t =
     (if t - createdAt act > SESSION_MAX_AGE_MS
      then (s\<lparr>activeSession := None\<rparr>, \<lparr>valid = False, res_ip = client_ip req\<rparr>)
      else (s\<lparr>activeSession := Some (act\<lparr>lastActivity := t\<rparr>)\<rparr>,
            \<lparr>valid = True, res_ip = client_ip req\<rparr>))"
proof -
  from assms(5) have "c \<noteq> []" by (auto simp: verifySignedValue_def)
  with assms show ?thesis by (simp add: validateSession_def Let_def)
qed

lemma validateSession_blocked:
  assumes "\<not> checkIPAllowlist cfg (client_ip req)"
  shows "validateSession cfg s req t = (s, \<lparr>valid = False, res_ip = client_ip req\<rparr>)"
  using assms by (simp add: validateSession_def Let_def)

text \<open>
  C4 (as amended). For every live session whose identifier is not the empty string
  (\<^verbatim>\<open>randomUUID()\<close> never returns it), every request whose address passes the IP
  allowlist and every presented cookie that verifies to the session's identifier:
  \<open>validateSession\<close> at time \<open>t\<close> succeeds iff \<open>t - createdAt\<close> does not exceed the
  24 hours of \<open>SESSION_MAX_AGE_MS\<close>; when the lifetime is exceeded the live session is
  cleared; it is valid one millisecond before \<open>createdAt + SESSION_MAX_AGE_MS\<close> and
  invalid one millisecond after; and the answer is the same whatever \<open>lastActivity\<close>
  holds. For a request whose address the allowlist rejects, \<open>validateSession\<close> fails
  whatever the state, the cookie and the time, and leaves the state as it is: it does
  not clear the session, however old.
\<close>

theorem session_lifetime:
  "(checkIPAllowlist cfg (client_ip req) \<and> activeSession s = Some act \<and> sessId act \<noteq> []
      \<and> session_cookie req = Some c
      \<and> verifySignedValue (hmac_hex cfg) c = Some (sessId act) \<longrightarrow>
      (valid (snd (validateSession cfg s req t)) \<longleftrightarrow> t - createdAt act \<le> SESSION_MAX_AGE_MS)
      \<and> (SESSION_MAX_AGE_MS < t - createdAt act \<longrightarrow>
            activeSession (fst (validateSession cfg s req t)) = None)
      \<and> valid (snd (validateSession cfg s req (createdAt act + SESSION_MAX_AGE_MS - 1)))
      \<and> \<not> valid (snd (validateSession cfg s req (createdAt act + SESSION_MAX_AGE_MS + 1)))
      \<and> valid (snd (validateSession cfg (s\<lparr>activeSession := Some (act\<lparr>lastActivity := la\<rparr>)\<rparr>) req t))
          = valid (snd (validateSession cfg s req t)))
   \<and> (\<not> checkIPAllowlist cfg (client_ip req) \<longrightarrow>
      validateSession cfg s req t = (s, \<lparr>valid = False, res_ip = client_ip req\<rparr>))"
proof (intro conjI impI)
  assume h: "checkIPAllowlist cfg (client_ip req) \<and> activeSession s = Some act \<and> sessId act \<noteq> []
      \<and> session_cookie req = Some c
      \<and> verifySignedValue (hmac_hex cfg) c = Some (sessId act)"
  then have m: "\<And>u. validateSession cfg s req u =
     (if u - createdAt act > SESSION_MAX_AGE_MS
      then (s\<lparr>activeSession := None\<rparr>, \<lparr>valid = False, res_ip = client_ip req\<rparr>)
      else (s\<lparr>activeSession := Some (act\<lparr>lastActivity := u\<rparr>)\<rparr>,
            \<lparr>valid = True, res_ip = client_ip req\<rparr>))"
    by (intro validateSession_matching) blast+
  have m': "validateSession cfg (s\<lparr>activeSession := Some (act\<lparr>lastActivity := la\<rparr>)\<rparr>) req t =
     (if t - createdAt (act\<lparr>lastActivity := la\<rparr>) > SESSION_MAX_AGE_MS
      then (s\<lparr>activeSession := Some (act\<lparr>lastActivity := la\<rparr>)\<rparr>\<lparr>activeSession := None\<rparr>,
            \<lparr>valid = False, res_ip = client_ip req\<rparr>)
      else (s\<lparr>activeSession := Some (act\<lparr>lastActivity := la\<rparr>)\<rparr>
              \<lparr>activeSession := Some (act\<lparr>lastActivity := la\<rparr>\<lparr>lastActivity := t\<rparr>)\<rparr>,
            \<lparr>valid = True, res_ip = client_ip req\<rparr>))"
    using h by (intro validateSession_matching) auto
  show "valid (snd (validateSession cfg s req t)) \<longleftrightarrow> t - createdAt act \<le> SESSION_MAX_AGE_MS"
    by (simp add: m)
  show "activeSession (fst (validateSession cfg s req t)) = None"
    if "SESSION_MAX_AGE_MS < t - createdAt act"
    using that by (simp add: m)
  show "valid (snd (validateSession cfg s req (createdAt act + SESSION_MAX_AGE_MS - 1)))"
    by (simp add: m)
  show "\<not> valid (snd (validateSession cfg s req (createdAt act + SESSION_MAX_AGE_MS + 1)))"
    by (simp add: m)
  show "valid (snd (validateSession cfg (s\<lparr>activeSession := Some (act\<lparr>lastActivity := la\<rparr>)\<rparr>) req t))
          = valid (snd (validateSession cfg s req t))"
    by (simp add: m m')
next
  assume "\<not> checkIPAllowlist cfg (client_ip req)"
  then show "validateSession cfg s req t = (s, \<lparr>valid = False, res_ip = client_ip req\<rparr>)"
    by (rule validateSession_blocked)
qed

text \<open>
  The session issued at 1000 ms: presented from its own address it is valid at
  86400999 ms, invalid and cleared at 86401001 ms; presented from 10.0.0.6 at
  90000000 ms, 25 hours old, it is refused and stays in the slot.
\<close>

theorem session_lifetime_witness:
  "valid (snd (validateSession guarded_cfg live_state
      \<lparr>client_ip = ''10.0.0.5'', session_cookie = Some live_cookie, csrf_header = None\<rparr> 86400999))
   \<and> \<not> valid (snd (validateSession guarded_cfg live_state
      \<lparr>client_ip = ''10.0.0.5'', session_cookie = Some live_cookie, csrf_header = None\<rparr> 86401001))
   \<and> activeSession (fst (validateSession guarded_cfg live_state
      \<lparr>client_ip = ''10.0.0.5'', session_cookie = Some live_cookie, csrf_header = None\<rparr> 86401001)) = None
   \<and> validateSession guarded_cfg live_state
      \<lparr>client_ip = ''10.0.0.6'', session_cookie = Some live_cookie, csrf_header = None\<rparr> 90000000
      = (live_state, \<lparr>valid = False, res_ip = ''10.0.0.6''\<rparr>)"
proof -
  let ?req = "\<lparr>client_ip = ''10.0.0.5'', session_cookie = Some live_cookie, csrf_header = None\<rparr>"
  let ?far = "\<lparr>client_ip = ''10.0.0.6'', session_cookie = Some live_cookie, csrf_header = None\<rparr>"
  have a: "checkIPAllowlist guarded_cfg (client_ip ?req)"
    by (simp add: checkIPAllowlist_def guarded_cfg_def demo_cfg_def)
  have s: "activeSession live_state = Some live_session" by (simp add: live_state_def)
  have i: "sessId live_session \<noteq> []" by (simp add: live_session_def)
  have c: "session_cookie ?req = Some live_cookie" by simp
  have v: "verifySignedValue (hmac_hex guarded_cfg) live_cookie = Some (sessId live_session)"
    using live_cookie_verifies by (simp add: guarded_cfg_def demo_cfg_def live_session_def)
  have b: "\<not> checkIPAllowlist guarded_cfg (client_ip ?far)"
    by (simp add: checkIPAllowlist_def guarded_cfg_def demo_cfg_def)
  from session_lifetime[of guarded_cfg ?req live_state live_session live_cookie 86401001 0] a s i c v
    session_lifetime[of guarded_cfg ?far live_state live_session live_cookie 90000000 0] b
  show ?thesis
    by (simp add: live_session_def SESSION_MAX_AGE_MS_def)
qed

text \<open>
  C4 as stated fails for a request from an address the allowlist rejects:
  \<open>validateSession\<close> tests the allowlist first, so the matching, correctly signed
  cookie of a session one second old (issued by a login from 10.0.0.5) is refused when
  it comes from 10.0.0.6.
\<close>

lemma first_login:
  "\<exists>r fx. login guarded_cfg init_state bare_req ''pw'' first_io = (live_state, r, fx)"
  by (simp add: login_def login_begin_def login_resume_def guarded_cfg_def demo_cfg_def
      demo_compare_def init_state_def bare_req_def first_io_def live_state_def
      live_session_def checkIPAllowlist_def checkRateLimit_def clearRateLimit_def Let_def)

lemma live_state_reachable: "reachable guarded_cfg live_state"
  using first_login r_login[OF r_init] by blast

theorem allowlist_rejects_live_session:
  "reachable guarded_cfg live_state
   \<and> activeSession live_state = Some live_session
   \<and> verifySignedValue (hmac_hex guarded_cfg) live_cookie = Some (sessId live_session)
   \<and> 2000 - createdAt live_session \<le> SESSION_MAX_AGE_MS
   \<and> \<not> valid (snd (validateSession guarded_cfg live_state
      \<lparr>client_ip = ''10.0.0.6'', session_cookie = Some live_cookie, csrf_header = None\<rparr> 2000))"
  using live_cookie_verifies live_state_reachable
  by (simp add: live_state_def live_session_def guarded_cfg_def demo_cfg_def
      SESSION_MAX_AGE_MS_def validateSession_def checkIPAllowlist_def Let_def)

section \<open>Cookies that do not name the live session\<close>

lemma validateSession_no_cookie:
  "validateSession cfg s (req\<lparr>session_cookie := None\<rparr>) now =
     (s, \<lparr>valid = False, res_ip = client_ip req\<rparr>)"
  by (simp add: validateSession_def Let_def)

lemma validateSession_unverified:
  assumes "verifySignedValue (hmac_hex cfg) c = None"
  shows "validateSession cfg s (req\<lparr>session_cookie := Some c\<rparr>) now =
     (s, \<lparr>valid = False, res_ip = client_ip req\<rparr>)"
  using assms by (simp add: validateSession_def Let_def)

lemma validateSession_other_id:
  assumes "verifySignedValue (hmac_hex cfg) c = Some v"
    and "case activeSession s of None \<Rightarrow> True | Some act \<Rightarrow> sessId act \<noteq> v"
  shows "validateSession cfg s (req\<lparr>session_cookie := Some c\<rparr>) now =
     (s, \<lparr>valid = False, res_ip = client_ip req\<rparr>)"
  using assms by (auto simp: validateSession_def Let_def split: option.splits)

text \<open>
  C5. \<open>validateSession\<close> gives the same failure, \<open>valid = False\<close> with the caller's
  address, and leaves the state as it is, in each of these cases: no session cookie; a
  cookie whose signature part (the 64 characters after the dot) differs from the
  signature of its value in any character; and a correctly signed identifier that is
  not the live session's (also when there is no live session). The signature is a hex
  digest of 64 characters.
\<close>

theorem validateSession_uniform_failure:
  assumes "hex_digest (hmac_hex cfg)"
  shows "validateSession cfg s (req\<lparr>session_cookie := None\<rparr>) now =
       (s, \<lparr>valid = False, res_ip = client_ip req\<rparr>)
    \<and> (length sg = 64 \<and> sg \<noteq> hmac_hex cfg v \<longrightarrow>
        validateSession cfg s (req\<lparr>session_cookie := Some (v @ ''.'' @ sg)\<rparr>) now =
          (s, \<lparr>valid = False, res_ip = client_ip req\<rparr>))
    \<and> ((case activeSession s of None \<Rightarrow> True | Some act \<Rightarrow> sessId act \<noteq> v) \<longrightarrow>
        validateSession cfg s (req\<lparr>session_cookie := Some (signValue (hmac_hex cfg) v)\<rparr>) now =
          (s, \<lparr>valid = False, res_ip = client_ip req\<rparr>))"
proof (intro conjI impI)
  show "validateSession cfg s (req\<lparr>session_cookie := None\<rparr>) now =
       (s, \<lparr>valid = False, res_ip = client_ip req\<rparr>)"
    by (rule validateSession_no_cookie)
next
  assume t: "length sg = 64 \<and> sg \<noteq> hmac_hex cfg v"
  from assms have "\<forall>w. length (hmac_hex cfg w) = 64" by (simp add: hex_digest_def)
  with t have "verifySignedValue (hmac_hex cfg) (v @ ''.'' @ sg) = None"
    by (intro verify_tampered[of _ 64]) simp_all
  then show "validateSession cfg s (req\<lparr>session_cookie := Some (v @ ''.'' @ sg)\<rparr>) now =
          (s, \<lparr>valid = False, res_ip = client_ip req\<rparr>)"
    by (rule validateSession_unverified)
next
  assume o: "case activeSession s of None \<Rightarrow> True | Some act \<Rightarrow> sessId act \<noteq> v"
  have "verifySignedValue (hmac_hex cfg) (signValue (hmac_hex cfg) v) = Some v"
    by (rule verify_sign) (rule hex_digest_no_dot[OF assms])
  then show "validateSession cfg s (req\<lparr>session_cookie := Some (signValue (hmac_hex cfg) v)\<rparr>) now =
          (s, \<lparr>valid = False, res_ip = client_ip req\<rparr>)"
    using o by (rule validateSession_other_id)
qed

text \<open>
  With the session \<open>s1\<close> live: no cookie, the cookie of \<open>s1\<close> with the last digit of
  its signature changed, and the well-signed cookie of an earlier session \<open>s0\<close>.
\<close>

theorem validateSession_uniform_failure_witness:
  "validateSession demo_cfg live_state (bare_req\<lparr>session_cookie := None\<rparr>) 2000 =
       (live_state, \<lparr>valid = False, res_ip = ''10.0.0.5''\<rparr>)
   \<and> validateSession demo_cfg live_state
        (bare_req\<lparr>session_cookie := Some (''s1'' @ ''.'' @ tampered_sig)\<rparr>) 2000 =
       (live_state, \<lparr>valid = False, res_ip = ''10.0.0.5''\<rparr>)
   \<and> validateSession demo_cfg live_state
        (bare_req\<lparr>session_cookie := Some (signValue (hmac_hex demo_cfg) ''s0'')\<rparr>) 2000 =
       (live_state, \<lparr>valid = False, res_ip = ''10.0.0.5''\<rparr>)"
proof -
  have h: "hex_digest (hmac_hex demo_cfg)"
    using demo_hmac_hex by (simp add: demo_cfg_def)
  have t: "length tampered_sig = 64 \<and> tampered_sig \<noteq> hmac_hex demo_cfg ''s1''"
    by (simp add: tampered_sig_def demo_cfg_def demo_hmac_def append_eq_conv_conj)
  have o: "case activeSession live_state of None \<Rightarrow> True | Some act \<Rightarrow> sessId act \<noteq> ''s0''"
    by (simp add: live_state_def live_session_def)
  from validateSession_uniform_failure[OF h, of live_state bare_req 2000 tampered_sig "''s1''"] t
    validateSession_uniform_failure[OF h, of live_state bare_req 2000 tampered_sig "''s0''"] o
  show ?thesis by (simp add: bare_req_def)
qed

section \<open>A single session\<close>

text \<open>
  C6. The state holds at most one session (\<open>activeSession\<close> is one optional slot), and a
  successful login replaces it whatever it was: for every state with a live session
  \<open>s1\<close>, after a login that succeeds with a fresh identifier (\<^verbatim>\<open>randomUUID()\<close> returns
  one that differs from the identifier of \<open>s1\<close>), the slot holds exactly the new session,
  whose signed identifier is the session cookie set, and \<open>validateSession\<close> presented with
  the correctly signed identifier of \<open>s1\<close> fails, from any address and at any time.
\<close>

theorem second_login_replaces_session:
  assumes "hex_digest (hmac_hex cfg)"
    and "activeSession s = Some s1"
    and "login cfg s req password io = (s', r, fx)" and "success r"
    and "uuid io \<noteq> sessId s1"
  shows "activeSession s' =
       Some \<lparr>sessId = uuid io, csrfToken = rand_hex io, createdAt = now_created io,
             lastActivity = now_activity io, ip = client_ip req\<rparr>
    \<and> SetCookie SESSION_COOKIE (signValue (hmac_hex cfg) (uuid io)) \<in> set fx
    \<and> validateSession cfg s'
         (req'\<lparr>session_cookie := Some (signValue (hmac_hex cfg) (sessId s1))\<rparr>) t =
       (s', \<lparr>valid = False, res_ip = client_ip req'\<rparr>)"
proof -
  obtain sb res fxb where b: "login_begin cfg s req io = (sb, res, fxb)"
    by (cases "login_begin cfg s req io")
  have none: "res = None"
  proof (cases res)
    case (Some r1)
    with b assms(3) have "r = r1" by (simp add: login_def)
    moreover from b Some have "\<not> success r1"
      by (auto simp: login_begin_def Let_def split: if_splits prod.splits)
    ultimately show ?thesis using assms(4) by simp
  qed simp
  let ?ok = "bcrypt_compare cfg password (PANEL_PASSWORD_HASH cfg)"
  obtain s2 r2 fx2 where r: "login_resume cfg sb req io ?ok = (s2, r2, fx2)"
    by (cases "login_resume cfg sb req io ?ok")
  with b none assms(3) have eq: "s' = s2" "r = r2" "fx = fxb @ [BcryptCompare password (PANEL_PASSWORD_HASH cfg)] @ fx2"
    by (simp_all add: login_def)
  have ok: "?ok"
  proof (rule ccontr)
    assume "\<not> ?ok"
    with r have "\<not> success r2"
      by (auto simp: login_resume_def Let_def split: prod.splits)
    with eq assms(4) show False by simp
  qed
  from r ok have act: "activeSession s2 =
       Some \<lparr>sessId = uuid io, csrfToken = rand_hex io, createdAt = now_created io,
             lastActivity = now_activity io, ip = client_ip req\<rparr>"
    and ck: "SetCookie SESSION_COOKIE (signValue (hmac_hex cfg) (uuid io)) \<in> set fx2"
    by (auto simp: login_resume_def Let_def)
  have v: "verifySignedValue (hmac_hex cfg) (signValue (hmac_hex cfg) (sessId s1)) = Some (sessId s1)"
    by (rule verify_sign) (rule hex_digest_no_dot[OF assms(1)])
  have "validateSession cfg s2
         (req'\<lparr>session_cookie := Some (signValue (hmac_hex cfg) (sessId s1))\<rparr>) t =
       (s2, \<lparr>valid = False, res_ip = client_ip req'\<rparr>)"
    using v act assms(5) by (intro validateSession_other_id) simp_all
  with act ck eq show ?thesis by simp
qed

text \<open>
  The session \<open>s1\<close> is live and its cookie valid; after a login with the right
  password from 10.0.0.9 the slot holds \<open>s2\<close> and the cookie of \<open>s1\<close> is refused.
\<close>

lemma relogin_succeeds:
  "login demo_cfg live_state relogin_req ''pw'' relogin_io =
     (relogin_state,
      \<lparr>success = True, error = None, res_remaining = None, res_retryAfterMs = None\<rparr>,
      [BcryptCompare ''pw'' ''$pw'',
       SetCookie SESSION_COOKIE (signValue demo_hmac ''s2''),
       SetCookie CSRF_COOKIE ''c2'',
       Audit ''login_success'' ''10.0.0.9'' None])"
  by (simp add: login_def login_begin_def login_resume_def demo_cfg_def demo_compare_def
      live_state_def relogin_req_def relogin_io_def relogin_state_def checkIPAllowlist_def
      checkRateLimit_def clearRateLimit_def Let_def)

theorem second_login_replaces_session_witness:
  "login demo_cfg live_state relogin_req ''pw'' relogin_io =
     (relogin_state,
      \<lparr>success = True, error = None, res_remaining = None, res_retryAfterMs = None\<rparr>,
      [BcryptCompare ''pw'' ''$pw'',
       SetCookie SESSION_COOKIE (signValue demo_hmac ''s2''),
       SetCookie CSRF_COOKIE ''c2'',
       Audit ''login_success'' ''10.0.0.9'' None])
   \<and> valid (snd (validateSession demo_cfg live_state
        (bare_req\<lparr>session_cookie := Some live_cookie\<rparr>) 6000))
   \<and> validateSession demo_cfg relogin_state
        (bare_req\<lparr>session_cookie := Some live_cookie\<rparr>) 6000 =
       (relogin_state, \<lparr>valid = False, res_ip = ''10.0.0.5''\<rparr>)"
proof -
  have h: "hex_digest (hmac_hex demo_cfg)"
    using demo_hmac_hex by (simp add: demo_cfg_def)
  have s: "activeSession live_state = Some live_session" by (simp add: live_state_def)
  have ok: "success \<lparr>success = True, error = None, res_remaining = None, res_retryAfterMs = None\<rparr>"
    by simp
  have fresh: "uuid relogin_io \<noteq> sessId live_session"
    by (simp add: relogin_io_def live_session_def)
  have before: "valid (snd (validateSession demo_cfg live_state
        (bare_req\<lparr>session_cookie := Some live_cookie\<rparr>) 6000))"
    using live_cookie_verifies
    by (simp add: validateSession_def checkIPAllowlist_def demo_cfg_def live_state_def
        live_session_def bare_req_def SESSION_MAX_AGE_MS_def Let_def live_cookie_def signValue_def)
  from second_login_replaces_session[OF h s relogin_succeeds ok fresh, of bare_req 6000]
    relogin_succeeds before
  show ?thesis
    by (simp add: demo_cfg_def live_session_def bare_req_def live_cookie_def)
qed

section \<open>CSRF validation\<close>




lemma validateCSRF_at_cleared:
  assumes "activeSession s = Some act0" "activeSession s' = None"
    and "csrf_header req = Some tok" "tok \<noteq> []"
  shows "validateCSRF_at s s' req = Inl TypeError"
  using assms by (simp add: validateCSRF_at_def validateCSRF_begin_def validateCSRF_resume_def)




section \<open>The order of the checks of login\<close>

lemma checkRateLimit_refused_table:
  "\<not> allowed (fst (checkRateLimit m a now)) \<Longrightarrow> snd (checkRateLimit m a now) = m"
  by (auto simp: checkRateLimit_def Let_def split: option.splits if_splits)

lemma checkRateLimit_table_le: "snd (checkRateLimit m a now) \<subseteq>\<^sub>m m"
  by (auto simp: checkRateLimit_def Let_def map_le_def split: option.splits if_splits)

lemma login_blocked:
  assumes "\<not> checkIPAllowlist cfg (client_ip req)"
  shows "login cfg s req password io =
     (s, \<lparr>success = False, error = Some ''Access denied'',
          res_remaining = None, res_retryAfterMs = None\<rparr>,
      [Audit ''blocked_ip'' (client_ip req) (Some ''login'')])"
  using assms by (simp add: login_def login_begin_def)

lemma login_rate_limited:
  assumes "checkIPAllowlist cfg (client_ip req)"
    and "\<not> allowed (fst (checkRateLimit (rateLimitMap s) (client_ip req) (now_check io)))"
  shows "login cfg s req password io =
     (s, \<lparr>success = False, error = Some ''Too many attempts. Try again later.'',
          res_remaining = Some 0,
          res_retryAfterMs = Some (retryAfterMs
            (fst (checkRateLimit (rateLimitMap s) (client_ip req) (now_check io))))\<rparr>,
      [Audit ''rate_limited'' (client_ip req) (Some ''login'')])"
proof -
  have "login_begin cfg s req io =
     (s, Some \<lparr>success = False, error = Some ''Too many attempts. Try again later.'',
          res_remaining = Some 0,
          res_retryAfterMs = Some (retryAfterMs
            (fst (checkRateLimit (rateLimitMap s) (client_ip req) (now_check io))))\<rparr>,
      [Audit ''rate_limited'' (client_ip req) (Some ''login'')])"
    using assms checkRateLimit_refused_table[OF assms(2)]
    by (simp add: login_begin_def case_prod_beta Let_def)
  then show ?thesis by (simp add: login_def)
qed

lemma login_unconfigured:
  assumes "checkIPAllowlist cfg (client_ip req)"
    and "allowed (fst (checkRateLimit (rateLimitMap s) (client_ip req) (now_check io)))"
    and "PANEL_PASSWORD_HASH cfg = []"
  shows "login cfg s req password io =
     (s\<lparr>rateLimitMap := snd (checkRateLimit (rateLimitMap s) (client_ip req) (now_check io))\<rparr>,
      \<lparr>success = False, error = Some ''Panel not configured. Run setup.sh first.'',
       res_remaining = None, res_retryAfterMs = None\<rparr>,
      [])"
proof -
  have "login_begin cfg s req io =
     (s\<lparr>rateLimitMap := snd (checkRateLimit (rateLimitMap s) (client_ip req) (now_check io))\<rparr>,
      Some \<lparr>success = False, error = Some ''Panel not configured. Run setup.sh first.'',
       res_remaining = None, res_retryAfterMs = None\<rparr>,
      [])"
    using assms by (simp add: login_begin_def case_prod_beta Let_def)
  then show ?thesis by (simp add: login_def)
qed

lemma login_compares:
  assumes "checkIPAllowlist cfg (client_ip req)"
    and "allowed (fst (checkRateLimit (rateLimitMap s) (client_ip req) (now_check io)))"
    and "PANEL_PASSWORD_HASH cfg \<noteq> []"
  shows "BcryptCompare password (PANEL_PASSWORD_HASH cfg) \<in> set (snd (snd (login cfg s req password io)))"
proof -
  have "login_begin cfg s req io =
     (s\<lparr>rateLimitMap := snd (checkRateLimit (rateLimitMap s) (client_ip req) (now_check io))\<rparr>,
      None, [])"
    using assms by (simp add: login_begin_def case_prod_beta Let_def)
  then show ?thesis by (simp add: login_def case_prod_beta)
qed

lemma unconfigured_async_table:
  assumes "PANEL_PASSWORD_HASH cfg = []" "reachable_async cfg c"
  shows "rateLimitMap (fst c) = Map.empty \<and> snd c = []"
  using assms(2)
proof (induction rule: reachable_async.induct)
  case a_init
  show ?case by (simp add: init_state_def)
next
  case (a_returned s ps req io s' r fx)
  then show ?case
    by (auto simp: login_begin_def checkRateLimit_def Let_def split: if_splits)
next
  case (a_suspended s ps req io s' fx password)
  with assms(1) show ?case
    by (auto simp: login_begin_def Let_def split: if_splits prod.splits)
next
  case (a_resumed s ps req password io qs s' r fx)
  then show ?case by simp
next
  case (a_logout s ps)
  then show ?case by (simp add: logout_def)
next
  case (a_validate s ps req now s' r)
  then show ?case using validateSession_rate_table[of cfg s req now s' r] by simp
next
  case (a_cleanup s ps now)
  then show ?case by (simp add: cleanup_def)
qed

lemma unconfigured_table_empty:
  assumes "PANEL_PASSWORD_HASH cfg = []" "reachable_async cfg (s, ps)"
  shows "rateLimitMap s = Map.empty"
  using unconfigured_async_table[OF assms] by simp

text \<open>
  C8. \<open>login\<close> checks the allowlist, then the rate limit, then the configuration, then
  the password, and the first check that fails ends the call. When the allowlist rejects
  the address, the answer is "Access denied", the only effect is the \<open>blocked_ip\<close> audit
  event and the state is unchanged, so no rate-limit entry is created. When the rate
  limit refuses, the answer is "Too many attempts" with the retry delay, and the state is
  unchanged. When both pass and the password hash is unconfigured, the answer is the
  configuration error, without any effect (no comparison is run); the session is
  untouched and the rate-limit table gets no new or changed entry, and in every state
  the process reaches (also with overlapping calls) the state is unchanged. With a
  configured hash \<^verbatim>\<open>bcrypt.compare\<close> is run on the password.
\<close>

theorem login_check_order:
  "(\<not> checkIPAllowlist cfg (client_ip req) \<longrightarrow>
      login cfg s req password io =
        (s, \<lparr>success = False, error = Some ''Access denied'',
             res_remaining = None, res_retryAfterMs = None\<rparr>,
         [Audit ''blocked_ip'' (client_ip req) (Some ''login'')]))
   \<and> (checkIPAllowlist cfg (client_ip req)
       \<and> \<not> allowed (fst (checkRateLimit (rateLimitMap s) (client_ip req) (now_check io))) \<longrightarrow>
      login cfg s req password io =
        (s, \<lparr>success = False, error = Some ''Too many attempts. Try again later.'',
             res_remaining = Some 0,
             res_retryAfterMs = Some (retryAfterMs
               (fst (checkRateLimit (rateLimitMap s) (client_ip req) (now_check io))))\<rparr>,
         [Audit ''rate_limited'' (client_ip req) (Some ''login'')]))
   \<and> (checkIPAllowlist cfg (client_ip req)
       \<and> allowed (fst (checkRateLimit (rateLimitMap s) (client_ip req) (now_check io)))
       \<and> PANEL_PASSWORD_HASH cfg = [] \<longrightarrow>
      snd (login cfg s req password io) =
        (\<lparr>success = False, error = Some ''Panel not configured. Run setup.sh first.'',
          res_remaining = None, res_retryAfterMs = None\<rparr>,
         [])
      \<and> activeSession (fst (login cfg s req password io)) = activeSession s
      \<and> rateLimitMap (fst (login cfg s req password io)) \<subseteq>\<^sub>m rateLimitMap s)
   \<and> (checkIPAllowlist cfg (client_ip req)
       \<and> allowed (fst (checkRateLimit (rateLimitMap s) (client_ip req) (now_check io)))
       \<and> PANEL_PASSWORD_HASH cfg = [] \<and> reachable_async cfg (s, ps) \<longrightarrow>
      login cfg s req password io =
        (s, \<lparr>success = False, error = Some ''Panel not configured. Run setup.sh first.'',
             res_remaining = None, res_retryAfterMs = None\<rparr>,
         []))
   \<and> (checkIPAllowlist cfg (client_ip req)
       \<and> allowed (fst (checkRateLimit (rateLimitMap s) (client_ip req) (now_check io)))
       \<and> PANEL_PASSWORD_HASH cfg \<noteq> [] \<longrightarrow>
      BcryptCompare password (PANEL_PASSWORD_HASH cfg)
        \<in> set (snd (snd (login cfg s req password io))))"
proof (intro conjI impI)
  assume "\<not> checkIPAllowlist cfg (client_ip req)"
  then show "login cfg s req password io =
        (s, \<lparr>success = False, error = Some ''Access denied'',
             res_remaining = None, res_retryAfterMs = None\<rparr>,
         [Audit ''blocked_ip'' (client_ip req) (Some ''login'')])"
    by (rule login_blocked)
next
  assume "checkIPAllowlist cfg (client_ip req)
       \<and> \<not> allowed (fst (checkRateLimit (rateLimitMap s) (client_ip req) (now_check io)))"
  then show "login cfg s req password io =
        (s, \<lparr>success = False, error = Some ''Too many attempts. Try again later.'',
             res_remaining = Some 0,
             res_retryAfterMs = Some (retryAfterMs
               (fst (checkRateLimit (rateLimitMap s) (client_ip req) (now_check io))))\<rparr>,
         [Audit ''rate_limited'' (client_ip req) (Some ''login'')])"
    by (simp add: login_rate_limited)
next
  assume h: "checkIPAllowlist cfg (client_ip req)
       \<and> allowed (fst (checkRateLimit (rateLimitMap s) (client_ip req) (now_check io)))
       \<and> PANEL_PASSWORD_HASH cfg = []"
  with login_unconfigured[of cfg req s io password]
  have l: "login cfg s req password io =
     (s\<lparr>rateLimitMap := snd (checkRateLimit (rateLimitMap s) (client_ip req) (now_check io))\<rparr>,
      \<lparr>success = False, error = Some ''Panel not configured. Run setup.sh first.'',
       res_remaining = None, res_retryAfterMs = None\<rparr>,
      [])"
    by simp
  show "snd (login cfg s req password io) =
        (\<lparr>success = False, error = Some ''Panel not configured. Run setup.sh first.'',
          res_remaining = None, res_retryAfterMs = None\<rparr>,
         [])"
    by (simp add: l)
  show "activeSession (fst (login cfg s req password io)) = activeSession s"
    by (simp add: l)
  show "rateLimitMap (fst (login cfg s req password io)) \<subseteq>\<^sub>m rateLimitMap s"
    by (simp add: l checkRateLimit_table_le)
next
  assume h: "checkIPAllowlist cfg (client_ip req)
       \<and> allowed (fst (checkRateLimit (rateLimitMap s) (client_ip req) (now_check io)))
       \<and> PANEL_PASSWORD_HASH cfg = [] \<and> reachable_async cfg (s, ps)"
  then have e: "rateLimitMap s = Map.empty"
    using unconfigured_table_empty[of cfg s ps] by blast
  then have "snd (checkRateLimit (rateLimitMap s) (client_ip req) (now_check io)) = rateLimitMap s"
    by (simp add: checkRateLimit_def)
  with h login_unconfigured[of cfg req s io password]
  show "login cfg s req password io =
        (s, \<lparr>success = False, error = Some ''Panel not configured. Run setup.sh first.'',
             res_remaining = None, res_retryAfterMs = None\<rparr>,
         [])"
    by simp
next
  assume "checkIPAllowlist cfg (client_ip req)
       \<and> allowed (fst (checkRateLimit (rateLimitMap s) (client_ip req) (now_check io)))
       \<and> PANEL_PASSWORD_HASH cfg \<noteq> []"
  then show "BcryptCompare password (PANEL_PASSWORD_HASH cfg)
        \<in> set (snd (snd (login cfg s req password io)))"
    by (simp add: login_compares)
qed

text \<open>
  The allowlist 10.0.0.5 and a request from 10.0.0.6; a locked address; an unconfigured
  panel; and a configured one, where the password is compared.
\<close>

theorem login_check_order_witness:
  "login guarded_cfg init_state (bare_req\<lparr>client_ip := ''10.0.0.6''\<rparr>) ''pw'' (seq_io 0) =
     (init_state,
      \<lparr>success = False, error = Some ''Access denied'',
       res_remaining = None, res_retryAfterMs = None\<rparr>,
      [Audit ''blocked_ip'' ''10.0.0.6'' (Some ''login'')])
   \<and> rateLimitMap init_state ''10.0.0.6'' = None
   \<and> login demo_cfg locked_state race_req ''pw'' (seq_io 0) =
     (locked_state,
      \<lparr>success = False, error = Some ''Too many attempts. Try again later.'',
       res_remaining = Some 0, res_retryAfterMs = Some 1800309\<rparr>,
      [Audit ''rate_limited'' ''203.0.113.9'' (Some ''login'')])
   \<and> login unconfigured_cfg init_state race_req ''pw'' (seq_io 0) =
     (init_state,
      \<lparr>success = False, error = Some ''Panel not configured. Run setup.sh first.'',
       res_remaining = None, res_retryAfterMs = None\<rparr>,
      [])
   \<and> BcryptCompare ''guess'' ''$pw''
       \<in> set (snd (snd (login demo_cfg init_state race_req ''guess'' (seq_io 0))))"
proof -
  have a: "login guarded_cfg init_state (bare_req\<lparr>client_ip := ''10.0.0.6''\<rparr>) ''pw'' (seq_io 0) =
     (init_state,
      \<lparr>success = False, error = Some ''Access denied'',
       res_remaining = None, res_retryAfterMs = None\<rparr>,
      [Audit ''blocked_ip'' ''10.0.0.6'' (Some ''login'')])"
    using login_check_order[of guarded_cfg "bare_req\<lparr>client_ip := ''10.0.0.6''\<rparr>"
        init_state "''pw''" "seq_io 0"]
    by (simp add: guarded_cfg_def demo_cfg_def checkIPAllowlist_def)
  have b: "login demo_cfg locked_state race_req ''pw'' (seq_io 0) =
     (locked_state,
      \<lparr>success = False, error = Some ''Too many attempts. Try again later.'',
       res_remaining = Some 0, res_retryAfterMs = Some 1800309\<rparr>,
      [Audit ''rate_limited'' ''203.0.113.9'' (Some ''login'')])"
    using login_check_order[of demo_cfg race_req locked_state "''pw''" "seq_io 0"]
    by (simp add: demo_cfg_def checkIPAllowlist_def race_req_def locked_state_def
        locked_entry_def seq_io_def checkRateLimit_def)
  have c: "login unconfigured_cfg init_state race_req ''pw'' (seq_io 0) =
     (init_state,
      \<lparr>success = False, error = Some ''Panel not configured. Run setup.sh first.'',
       res_remaining = None, res_retryAfterMs = None\<rparr>,
      [])"
    using login_check_order[of unconfigured_cfg race_req init_state "''pw''" "seq_io 0" "[]"]
      a_init[of unconfigured_cfg]
    by (simp add: unconfigured_cfg_def demo_cfg_def checkIPAllowlist_def race_req_def
        init_state_def checkRateLimit_def)
  have d: "BcryptCompare ''guess'' ''$pw''
       \<in> set (snd (snd (login demo_cfg init_state race_req ''guess'' (seq_io 0))))"
    using login_check_order[of demo_cfg race_req init_state "''guess''" "seq_io 0"]
    by (simp add: demo_cfg_def checkIPAllowlist_def race_req_def init_state_def
        checkRateLimit_def)
  from a b c d show ?thesis by (simp add: init_state_def)
qed

section \<open>The allowlist as a textual prefix match\<close>

lemma split_js_not_Nil: "split_js c s \<noteq> []"
  by (induction s) (auto split: list.splits)

lemma split_js_first:
  "split_js c s = takeWhile (\<lambda>x. x \<noteq> c) s # tl (split_js c s)"
proof (induction s)
  case Nil
  show ?case by simp
next
  case (Cons x xs)
  then show ?case
    by (cases "split_js c xs") (auto simp: split_js_not_Nil)
qed

lemma join_js_Cons_head: "join_js sep ((x # w) # ws) = x # join_js sep (w # ws)"
  by (cases ws) simp_all

lemma join_js_Nil_head: "ws \<noteq> [] \<Longrightarrow> join_js sep ([] # ws) = sep @ join_js sep ws"
  by (cases ws) simp_all

lemma join_take_split:
  "join_js ''.'' (take (Suc n) (split_js (CHR ''.'') s)) = before_dot n s"
proof (induction s arbitrary: n)
  case Nil
  show ?case by simp
next
  case (Cons x xs)
  show ?case
  proof (cases "x = CHR ''.''")
    case True
    show ?thesis
    proof (cases n)
      case 0
      with True show ?thesis by simp
    next
      case (Suc k)
      let ?rest = "take (Suc k) (split_js (CHR ''.'') xs)"
      have ne: "?rest \<noteq> []"
        using split_js_not_Nil[of "CHR ''.''" xs] by (cases "split_js (CHR ''.'') xs") simp_all
      have "join_js ''.'' (take (Suc n) (split_js (CHR ''.'') (x # xs))) = join_js ''.'' ([] # ?rest)"
        using True Suc by simp
      also have "\<dots> = ''.'' @ join_js ''.'' ?rest"
        using ne by (rule join_js_Nil_head)
      also have "\<dots> = ''.'' @ before_dot k xs"
        using Cons[of k] by simp
      finally show ?thesis using True Suc by simp
    qed
  next
    case False
    obtain w ws where sp: "split_js (CHR ''.'') xs = w # ws"
      using split_js_not_Nil[of "CHR ''.''" xs] by (cases "split_js (CHR ''.'') xs") auto
    with False Cons[of n] show ?thesis
      by (simp add: join_js_Cons_head)
  qed
qed

lemma cidr_prefix_spec: "cidr_prefix entry = first_three_octets (cidr_base entry)"
proof -
  have "split_js (CHR ''/'') entry = cidr_base entry # tl (split_js (CHR ''/'') entry)"
    unfolding cidr_base_def by (rule split_js_first)
  then have "cidr_prefix entry = join_js ''.'' (take 3 (split_js (CHR ''.'') (cidr_base entry)))"
    unfolding cidr_prefix_def by (metis list.simps(5))
  also have "\<dots> = before_dot 2 (cidr_base entry)"
    using join_take_split[of 2 "cidr_base entry"] by (simp add: eval_nat_numeral)
  finally show ?thesis by (simp add: first_three_octets_def)
qed

text \<open>
  C9. For every address, \<open>checkIPAllowlist\<close> is true when the configured allowlist is
  empty; otherwise it is true iff some configured entry admits the address: an entry
  without slash when the address is equal to it, an entry with a slash (a CIDR) when the
  address starts, as text, with the first three dotted octets of the entry's base
  address. The prefix length after the slash is never read.
\<close>

theorem allowlist_textual_prefix:
  "checkIPAllowlist cfg a \<longleftrightarrow>
     (ALLOWED_IPS cfg = [] \<or>
      (\<exists>entry\<in>set (ALLOWED_IPS cfg).
          if CHR ''/'' \<in> set entry
          then prefix (first_three_octets (cidr_base entry)) a
          else a = entry))"
  by (simp add: checkIPAllowlist_def list_ex_iff cidr_prefix_spec)

text \<open>
  With the entries 10.0.0.5, 192.168.1.0/24 and 172.16.0.0/12: the literal admits
  itself only; the prefix \<open>192.168.1\<close> admits 192.168.1.77 and also 192.168.100.1; the
  prefix \<open>172.16.0\<close> does not admit 172.17.0.1, an address of 172.16.0.0/12.
\<close>

theorem allowlist_textual_prefix_witness:
  "checkIPAllowlist demo_cfg ''8.8.8.8''
   \<and> checkIPAllowlist ranges_cfg ''10.0.0.5''
   \<and> \<not> checkIPAllowlist ranges_cfg ''10.0.0.6''
   \<and> checkIPAllowlist ranges_cfg ''192.168.1.77''
   \<and> checkIPAllowlist ranges_cfg ''192.168.100.1''
   \<and> \<not> checkIPAllowlist ranges_cfg ''172.17.0.1''"
proof -
  have a: "checkIPAllowlist demo_cfg ''8.8.8.8''"
    using allowlist_textual_prefix[of demo_cfg "''8.8.8.8''"] by (simp add: demo_cfg_def)
  have b: "checkIPAllowlist ranges_cfg ''10.0.0.5''"
    using allowlist_textual_prefix[of ranges_cfg "''10.0.0.5''"]
    by (simp add: ranges_cfg_def demo_cfg_def)
  have c: "\<not> checkIPAllowlist ranges_cfg ''10.0.0.6''"
    using allowlist_textual_prefix[of ranges_cfg "''10.0.0.6''"]
    by (simp add: ranges_cfg_def demo_cfg_def cidr_base_def first_three_octets_def eval_nat_numeral)
  have d: "checkIPAllowlist ranges_cfg ''192.168.1.77''"
    using allowlist_textual_prefix[of ranges_cfg "''192.168.1.77''"]
    by (simp add: ranges_cfg_def demo_cfg_def cidr_base_def first_three_octets_def eval_nat_numeral)
  have e: "checkIPAllowlist ranges_cfg ''192.168.100.1''"
    using allowlist_textual_prefix[of ranges_cfg "''192.168.100.1''"]
    by (simp add: ranges_cfg_def demo_cfg_def cidr_base_def first_three_octets_def eval_nat_numeral)
  have f: "\<not> checkIPAllowlist ranges_cfg ''172.17.0.1''"
    using allowlist_textual_prefix[of ranges_cfg "''172.17.0.1''"]
    by (simp add: ranges_cfg_def demo_cfg_def cidr_base_def first_three_octets_def eval_nat_numeral)
  from a b c d e f show ?thesis by simp
qed

section \<open>CSRF validation and the age of the session\<close>

lemma validateSession_expired:
  assumes "activeSession s = Some act" "SESSION_MAX_AGE_MS < now - createdAt act"
  shows "\<not> valid (snd (validateSession cfg s req now))"
  using assms by (auto simp: validateSession_def Let_def split: option.splits)

text \<open>
  C10 (as amended). \<open>validateCSRF\<close> does not look at the age of the session: for every
  call that finds a live session when it tests the slot and, when it is resumed after
  \<^verbatim>\<open>await headers()\<close>, finds in the slot a session older than \<open>SESSION_MAX_AGE_MS\<close>
  (expired, and not yet cleared by a call of \<open>validateSession\<close>) whose token is not
  empty (it is 64 hex digits), a header equal to that token is accepted and
  \<open>requireCSRF\<close> passes; so it is for every call that no other call overlaps, in a
  state with such a session. What rejects the request is \<open>requireAuth\<close>, which at
  that instant fails with status 401 for every request.
\<close>

theorem validateCSRF_ignores_age:
  assumes "activeSession s = Some act0" and "activeSession s' = Some act"
    and "csrfToken act \<noteq> []"
    and "csrf_header req = Some (csrfToken act)"
    and "SESSION_MAX_AGE_MS < now - createdAt act"
  shows "validateCSRF_at s s' req = Inr True
    \<and> requireCSRF_at s s' req = Inr ()
    \<and> validateCSRF s' req = Inr True
    \<and> requireCSRF s' req = Inr ()
    \<and> snd (requireAuth cfg s' req' now) = Inl (AuthError ''Unauthorized'' 401)"
proof -
  from assms(1-4) have c: "validateCSRF_at s s' req = Inr True"
    by (simp add: validateCSRF_at_def validateCSRF_begin_def validateCSRF_resume_def)
  then have r: "requireCSRF_at s s' req = Inr ()" by (simp add: requireCSRF_at_def)
  from assms(2-4) have c': "validateCSRF s' req = Inr True"
    by (simp add: validateCSRF_def validateCSRF_at_def validateCSRF_begin_def
        validateCSRF_resume_def)
  then have r': "requireCSRF s' req = Inr ()"
    by (simp add: requireCSRF_def requireCSRF_at_def validateCSRF_def)
  have "\<not> valid (snd (validateSession cfg s' req' now))"
    using assms(2,5) by (rule validateSession_expired)
  then have "snd (requireAuth cfg s' req' now) = Inl (AuthError ''Unauthorized'' 401)"
    by (auto simp: requireAuth_def split: prod.splits)
  with c r c' r' show ?thesis by simp
qed

text \<open>The session issued at 1000 ms, at 90000000 ms: 25 hours old.\<close>

theorem validateCSRF_ignores_age_witness:
  "validateCSRF_at live_state live_state (bare_req\<lparr>csrf_header := Some ''c1''\<rparr>) = Inr True
   \<and> requireCSRF_at live_state live_state (bare_req\<lparr>csrf_header := Some ''c1''\<rparr>) = Inr ()
   \<and> validateCSRF live_state (bare_req\<lparr>csrf_header := Some ''c1''\<rparr>) = Inr True
   \<and> requireCSRF live_state (bare_req\<lparr>csrf_header := Some ''c1''\<rparr>) = Inr ()
   \<and> snd (requireAuth demo_cfg live_state
        (bare_req\<lparr>session_cookie := Some live_cookie, csrf_header := Some ''c1''\<rparr>) 90000000)
      = Inl (AuthError ''Unauthorized'' 401)"
proof -
  have s: "activeSession live_state = Some live_session" by (simp add: live_state_def)
  have t: "csrfToken live_session \<noteq> []" by (simp add: live_session_def)
  have h: "csrf_header (bare_req\<lparr>csrf_header := Some ''c1''\<rparr>) = Some (csrfToken live_session)"
    by (simp add: live_session_def)
  have x: "SESSION_MAX_AGE_MS < 90000000 - createdAt live_session"
    by (simp add: live_session_def SESSION_MAX_AGE_MS_def)
  from validateCSRF_ignores_age[OF s s t h x, of demo_cfg
      "bare_req\<lparr>session_cookie := Some live_cookie, csrf_header := Some ''c1''\<rparr>"]
  show ?thesis by simp
qed

text \<open>
  C10 as stated fails for a call that a \<open>validateSession\<close> overlaps: the expired session
  \<open>s1\<close> is live when \<open>validateCSRF\<close> tests the slot; before it is resumed, the
  \<open>validateSession\<close> of another request with the cookie of \<open>s1\<close> finds the session
  expired and clears it; given the exact token, \<open>validateCSRF\<close> then throws instead of
  returning true.
\<close>

theorem expiry_during_validateCSRF:
  "reachable guarded_cfg live_state
   \<and> activeSession live_state = Some live_session
   \<and> csrfToken live_session = ''c1''
   \<and> SESSION_MAX_AGE_MS < 90000000 - createdAt live_session
   \<and> activeSession (fst (validateSession guarded_cfg live_state
        (bare_req\<lparr>session_cookie := Some live_cookie\<rparr>) 90000000)) = None
   \<and> validateCSRF_at live_state
        (fst (validateSession guarded_cfg live_state
           (bare_req\<lparr>session_cookie := Some live_cookie\<rparr>) 90000000))
        (bare_req\<lparr>csrf_header := Some ''c1''\<rparr>)
       = Inl TypeError"
proof -
  have v: "validateSession guarded_cfg live_state
        (bare_req\<lparr>session_cookie := Some live_cookie\<rparr>) 90000000 =
      (live_state\<lparr>activeSession := None\<rparr>, \<lparr>valid = False, res_ip = ''10.0.0.5''\<rparr>)"
    using validateSession_matching[of guarded_cfg "bare_req\<lparr>session_cookie := Some live_cookie\<rparr>"
        live_state live_session live_cookie 90000000] live_cookie_verifies
    by (simp add: checkIPAllowlist_def guarded_cfg_def demo_cfg_def bare_req_def
        live_state_def live_session_def SESSION_MAX_AGE_MS_def)
  have s: "activeSession live_state = Some live_session" by (simp add: live_state_def)
  have k: "csrfToken live_session = ''c1''" by (simp add: live_session_def)
  have x: "SESSION_MAX_AGE_MS < 90000000 - createdAt live_session"
    by (simp add: live_session_def SESSION_MAX_AGE_MS_def)
  have n: "activeSession (fst (validateSession guarded_cfg live_state
        (bare_req\<lparr>session_cookie := Some live_cookie\<rparr>) 90000000)) = None"
    by (simp add: v)
  have e: "validateCSRF_at live_state
        (fst (validateSession guarded_cfg live_state
           (bare_req\<lparr>session_cookie := Some live_cookie\<rparr>) 90000000))
        (bare_req\<lparr>csrf_header := Some ''c1''\<rparr>)
       = Inl TypeError"
    using validateCSRF_at_cleared[OF s n, of "bare_req\<lparr>csrf_header := Some ''c1''\<rparr>" "''c1''"]
    by simp
  from live_state_reachable s k x n e show ?thesis by (intro conjI)
qed

end
